theory Spec2Isabelle
  imports Main "HOL-Library.Word"
begin

unbundle bit_operations_syntax

section \<open>Platform values: bytes, JavaScript strings, errors\<close>

text \<open>
  A JavaScript string is a sequence of 16-bit code units; an ArrayBuffer or Uint8Array is a
  sequence of bytes. String literals of the source are written with \<open>js\<close>.
\<close>

type_synonym byte = "8 word"
type_synonym code_unit = "16 word"
type_synonym jsstring = "code_unit list"

definition js :: "string \<Rightarrow> jsstring" where
  "js s = map of_char s"

text \<open>
  Each constructor is one \<open>throw new Error(...)\<close> of the source, named after the function
  whose \<open>catch\<close> block throws it. The source has no error classes: every failure is a plain
  \<open>Error\<close> that differs by message only.
\<close>

datatype error =
    GenerateKeyFailed    \<comment> \<open>'Failed to generate encryption key'\<close>
  | ImportKeyFailed      \<comment> \<open>'Failed to import encryption key'\<close>
  | EncryptTextFailed    \<comment> \<open>'Failed to encrypt text'\<close>
  | DecryptTextFailed    \<comment> \<open>'Failed to decrypt text. Data may be corrupted or key is incorrect.'\<close>
  | EncryptFileFailed    \<comment> \<open>'Failed to encrypt file'\<close>
  | DecryptFileFailed    \<comment> \<open>'Failed to decrypt file. Data may be corrupted or key is incorrect.'\<close>
  | RetrieveKeyFailed    \<comment> \<open>'Failed to retrieve encryption key'\<close>
  | ExportKeyFailed      \<comment> \<open>'Failed to export encryption key'\<close>
  | ImportBackupFailed   \<comment> \<open>'Failed to import encryption key. The backup may be corrupted.'\<close>

section \<open>Base64: \<open>btoa\<close> and \<open>atob\<close>\<close>

text \<open>The base64 alphabet: A-Z, a-z, 0-9, +, /.\<close>

definition b64_char :: "nat \<Rightarrow> code_unit" where
  "b64_char n =
     (if n < 26 then of_nat (n + 65)
      else if n < 52 then of_nat (n + 71)
      else if n < 62 then of_nat (n - 4)
      else if n = 62 then 0x2B else 0x2F)"

definition b64_index :: "code_unit \<Rightarrow> nat option" where
  "b64_index c =
     (if 0x41 \<le> c \<and> c \<le> 0x5A then Some (unat c - 65)
      else if 0x61 \<le> c \<and> c \<le> 0x7A then Some (unat c - 71)
      else if 0x30 \<le> c \<and> c \<le> 0x39 then Some (unat c + 4)
      else if c = 0x2B then Some 62
      else if c = 0x2F then Some 63
      else None)"

fun b64_encode :: "nat list \<Rightarrow> jsstring" where
  "b64_encode (a # b # c # rest) =
     b64_char (a div 4) # b64_char ((a mod 4) * 16 + b div 16) #
     b64_char ((b mod 16) * 4 + c div 64) # b64_char (c mod 64) # b64_encode rest"
| "b64_encode [a, b] =
     [b64_char (a div 4), b64_char ((a mod 4) * 16 + b div 16), b64_char ((b mod 16) * 4), 0x3D]"
| "b64_encode [a] = [b64_char (a div 4), b64_char ((a mod 4) * 16), 0x3D, 0x3D]"
| "b64_encode [] = []"

text \<open>
  \<open>btoa\<close> takes a binary string: it throws InvalidCharacterError (here \<open>None\<close>) when a code
  unit is above 0xFF.
\<close>

definition btoa :: "jsstring \<Rightarrow> jsstring option" where
  "btoa s = (if list_all (\<lambda>c. c \<le> 0xFF) s then Some (b64_encode (map unat s)) else None)"

fun b64_decode :: "nat list \<Rightarrow> nat list" where
  "b64_decode (a # b # c # d # rest) =
     (a * 4 + b div 16) # ((b mod 16) * 16 + c div 4) # ((c mod 4) * 64 + d) # b64_decode rest"
| "b64_decode [a, b, c] = [a * 4 + b div 16, (b mod 16) * 16 + c div 4]"
| "b64_decode [a, b] = [a * 4 + b div 16]"
| "b64_decode _ = []"

definition is_ascii_whitespace :: "code_unit \<Rightarrow> bool" where
  "is_ascii_whitespace c = (c = 0x09 \<or> c = 0x0A \<or> c = 0x0C \<or> c = 0x0D \<or> c = 0x20)"

definition strip_padding :: "jsstring \<Rightarrow> jsstring" where
  "strip_padding d =
     (if length d mod 4 = 0 \<and> d \<noteq> [] \<and> last d = 0x3D
      then (if butlast d \<noteq> [] \<and> last (butlast d) = 0x3D then butlast (butlast d) else butlast d)
      else d)"

text \<open>
  \<open>atob\<close> is the forgiving-base64 decode of the HTML standard: ASCII whitespace is removed,
  one or two trailing \<open>=\<close> are removed when the length is a multiple of four, a length of
  1 modulo 4 or a character outside the alphabet fails (\<open>None\<close>), and the bits left over at
  the end are dropped without a check.
\<close>

definition atob :: "jsstring \<Rightarrow> jsstring option" where
  "atob data =
     (let d = strip_padding (filter (\<lambda>c. \<not> is_ascii_whitespace c) data)
      in if length d mod 4 = 1 then None
         else (case those (map b64_index d) of
                 None \<Rightarrow> None
               | Some sextets \<Rightarrow> Some (map of_nat (b64_decode sextets))))"

text \<open>The two utilities at the end of crypto.ts.\<close>

definition arrayBufferToBase64 :: "byte list \<Rightarrow> jsstring option" where
  "arrayBufferToBase64 buffer = btoa (map ucast buffer)"

definition base64ToArrayBuffer :: "jsstring \<Rightarrow> byte list option" where
  "base64ToArrayBuffer base64 = map_option (map ucast) (atob base64)"

section \<open>JSON values, \<open>JSON.stringify\<close> and \<open>JSON.parse\<close>\<close>

text \<open>
  A number is an IEEE 754 double; JSON text yields no NaN. A finite number is kept as its
  sign, an odd mantissa below \<open>2 ^ 53\<close> and a binary exponent, the value being
  \<open>mantissa * 2 ^ exponent\<close>; zero has the mantissa and the exponent 0, and keeps its
  sign. Equal numbers are equal terms.
\<close>

datatype jsnumber =
    Finite (num_neg: bool) (mantissa: nat) (exponent: int)
  | Infinite (num_neg: bool)

datatype json =
    JNull
  | JBool bool
  | JNum jsnumber
  | JStr jsstring
  | JArr "json list"
  | JObj "(jsstring \<times> json) list"

fun digits_of :: "nat \<Rightarrow> nat list" where
  "digits_of n = (if n < 10 then [n] else digits_of (n div 10) @ [n mod 10])"

declare digits_of.simps [simp del]

definition nat_of_digits :: "nat list \<Rightarrow> nat" where
  "nat_of_digits ds = foldl (\<lambda>a d. a * 10 + d) 0 ds"

fun strip_twos :: "nat \<Rightarrow> int \<Rightarrow> nat \<times> int" where
  "strip_twos m e =
     (if m = 0 then (0, 0) else if even m then strip_twos (m div 2) (e + 1) else (m, e))"

declare strip_twos.simps [simp del]

definition finite_number :: "bool \<Rightarrow> nat \<Rightarrow> int \<Rightarrow> jsnumber" where
  "finite_number neg m e = (case strip_twos m e of (m', e') \<Rightarrow> Finite neg m' e')"

fun bit_length :: "nat \<Rightarrow> nat" where
  "bit_length n = (if n = 0 then 0 else Suc (bit_length (n div 2)))"

declare bit_length.simps [simp del]

text \<open>
  The double nearest to the fraction \<open>a / b\<close>, ties to the even mantissa: \<open>l\<close> is the
  binary logarithm of the fraction, rounded down, \<open>e\<close> the exponent of the last place
  (not below that of the subnormal numbers) and \<open>m\<close> the fraction in units of the last
  place, rounded. A value that rounds to \<open>2 ^ 1024\<close> or more is infinite.
\<close>

definition nearest_double :: "bool \<Rightarrow> nat \<Rightarrow> nat \<Rightarrow> jsnumber" where
  "nearest_double neg a b =
     (let d = int (bit_length a) - int (bit_length b);
          l = (if (if 0 \<le> d then b * 2 ^ nat d \<le> a else b \<le> a * 2 ^ nat (- d))
               then d else d - 1);
          e = max (l - 52) (- 1074);
          num = (if 0 \<le> e then a else a * 2 ^ nat (- e));
          den = (if 0 \<le> e then b * 2 ^ nat e else b);
          q = num div den;
          r = num mod den;
          m = (if 2 * r < den \<or> (2 * r = den \<and> even q) then q else q + 1)
      in if 971 < e \<or> (e = 971 \<and> 2 ^ 53 \<le> m) then Infinite neg
         else finite_number neg m e)"

text \<open>The number value of \<open>s * 10 ^ j\<close>.\<close>

definition decimal_double :: "bool \<Rightarrow> nat \<Rightarrow> int \<Rightarrow> jsnumber" where
  "decimal_double neg s j =
     (if 0 \<le> j then nearest_double neg (s * 10 ^ nat j) 1
      else nearest_double neg s (10 ^ nat (- j)))"

text \<open>
  The number of a literal with the digits \<open>ds\<close> and the decimal exponent \<open>k\<close>. A literal of
  \<open>10 ^ 310\<close> or more is infinite and one below \<open>10 ^ - 331\<close> is zero, whatever its
  digits: the two tests only spare the powers of ten.
\<close>

definition literal_number :: "bool \<Rightarrow> nat list \<Rightarrow> int \<Rightarrow> jsnumber" where
  "literal_number neg ds k =
     (let ds1 = dropWhile (\<lambda>d. d = 0) ds;
          n = int (length ds1) + k
      in if ds1 = [] then Finite neg 0 0
         else if 310 < n then Infinite neg
         else if n < - 330 then Finite neg 0 0
         else decimal_double neg (nat_of_digits ds1) k)"

text \<open>The number of a non-negative integer, such as a value of \<open>Date.now()\<close>.\<close>

definition number_of_nat :: "nat \<Rightarrow> jsnumber" where
  "number_of_nat n = nearest_double False n 1"

definition digit_char :: "nat \<Rightarrow> code_unit" where
  "digit_char d = of_nat (d + 48)"

definition nat_to_string :: "nat \<Rightarrow> jsstring" where
  "nat_to_string n = map digit_char (digits_of n)"

text \<open>
  Number::toString of ECMAScript for radix 10 prints the shortest digits \<open>s\<close> that read
  back as the number, \<open>k\<close> of them, with the decimal point after the first \<open>n\<close>. For the
  positive number \<open>p / q\<close>, \<open>decimal_point\<close> is the \<open>n\<close> with
  \<open>10 ^ (n - 1) \<le> p / q < 10 ^ n\<close>; a double is at least \<open>2 ^ - 1074\<close>, which bounds the
  search. With \<open>k\<close> digits the candidates are the two neighbours \<open>s\<close> and \<open>s + 1\<close> of
  \<open>p / q\<close> in units of \<open>10 ^ (n - k)\<close>; of two that read back the nearer is taken, and
  the even one when they are equally near. 17 digits always suffice.
\<close>

fun scale_up :: "nat \<Rightarrow> nat \<Rightarrow> nat \<Rightarrow> nat \<Rightarrow> nat" where
  "scale_up 0 p q t = t"
| "scale_up (Suc fuel) p q t = (if q \<le> p * 10 ^ t then t else scale_up fuel p q (Suc t))"

definition decimal_point :: "nat \<Rightarrow> nat \<Rightarrow> int" where
  "decimal_point p q =
     (if q \<le> p then int (length (digits_of (p div q))) else 1 - int (scale_up 400 p q 1))"

definition candidate ::
  "nat \<Rightarrow> int \<Rightarrow> nat \<Rightarrow> nat \<Rightarrow> int \<Rightarrow> nat \<Rightarrow> (nat \<times> int) option" where
  "candidate m e p q n k =
     (let j = n - int k;
          num = (if j \<le> 0 then p * 10 ^ nat (- j) else p);
          den = (if j \<le> 0 then q else q * 10 ^ nat j);
          s = num div den;
          r = num mod den;
          lo = (decimal_double False s j = Finite False m e);
          hi = (decimal_double False (s + 1) j = Finite False m e)
      in if lo \<and> hi then
           (if 2 * r < den \<or> (2 * r = den \<and> even s) then Some (s, j) else Some (s + 1, j))
         else if lo then Some (s, j)
         else if hi then Some (s + 1, j)
         else None)"

definition shortest_decimal :: "nat \<Rightarrow> int \<Rightarrow> nat list \<times> int" where
  "shortest_decimal m e =
     (let p = (if 0 \<le> e then m * 2 ^ nat e else m);
          q = (if 0 \<le> e then 1 else 2 ^ nat (- e));
          n = decimal_point p q
      in case List.map_filter (candidate m e p q n) [1..<18] of
           [] \<Rightarrow> ([], 0)
         | (s, j) # cs \<Rightarrow>
             (rev (dropWhile (\<lambda>d. d = 0) (rev (digits_of s))), int (length (digits_of s)) + j))"

text \<open>
  An integer below \<open>2 ^ 53\<close> is a double, and so is every other integer below it: the
  shortest digits that read back as it are its own, without the zeros at the end.
\<close>

definition integer_decimal :: "nat \<Rightarrow> nat list \<times> int" where
  "integer_decimal i =
     (rev (dropWhile (\<lambda>d. d = 0) (rev (digits_of i))), int (length (digits_of i)))"

definition decimal_of :: "nat \<Rightarrow> int \<Rightarrow> nat list \<times> int" where
  "decimal_of m e =
     (if 0 \<le> e \<and> m * 2 ^ nat e < 2 ^ 53 then integer_decimal (m * 2 ^ nat e)
      else shortest_decimal m e)"

definition format_decimal :: "nat list \<Rightarrow> int \<Rightarrow> jsstring" where
  "format_decimal digits n =
     (let ds = map digit_char digits;
          k = int (length ds)
      in if k \<le> n \<and> n \<le> 21 then ds @ replicate (nat (n - k)) 0x30
         else if 0 < n \<and> n \<le> 21 then take (nat n) ds @ js ''.'' @ drop (nat n) ds
         else if -6 < n \<and> n \<le> 0 then js ''0.'' @ replicate (nat (- n)) 0x30 @ ds
         else (if k = 1 then ds else take 1 ds @ js ''.'' @ drop 1 ds) @ js ''e'' @
              (if 0 \<le> n - 1 then js ''+'' else js ''-'') @ nat_to_string (nat \<bar>n - 1\<bar>))"

definition number_to_string :: "jsnumber \<Rightarrow> jsstring" where
  "number_to_string x =
     (case x of
        Infinite neg \<Rightarrow> (if neg then js ''-Infinity'' else js ''Infinity'')
      | Finite neg m e \<Rightarrow>
          if m = 0 then js ''0''
          else (if neg then js ''-'' else []) @
               (case decimal_of m e of (ds, n) \<Rightarrow> format_decimal ds n))"

subsection \<open>Serialisation\<close>

definition hex_char :: "nat \<Rightarrow> code_unit" where
  "hex_char d = (if d < 10 then of_nat (d + 48) else of_nat (d + 87))"

definition unicode_escape :: "code_unit \<Rightarrow> jsstring" where
  "unicode_escape c =
     [0x5C, 0x75, hex_char (unat c div 4096), hex_char (unat c div 256 mod 16),
      hex_char (unat c div 16 mod 16), hex_char (unat c mod 16)]"

definition is_high_surrogate :: "code_unit \<Rightarrow> bool" where
  "is_high_surrogate c = (0xD800 \<le> c \<and> c \<le> 0xDBFF)"

definition is_low_surrogate :: "code_unit \<Rightarrow> bool" where
  "is_low_surrogate c = (0xDC00 \<le> c \<and> c \<le> 0xDFFF)"

definition quote_unit :: "code_unit \<Rightarrow> jsstring" where
  "quote_unit c =
     (if c = 0x08 then [0x5C, 0x62]
      else if c = 0x09 then [0x5C, 0x74]
      else if c = 0x0A then [0x5C, 0x6E]
      else if c = 0x0C then [0x5C, 0x66]
      else if c = 0x0D then [0x5C, 0x72]
      else if c = 0x22 then [0x5C, 0x22]
      else if c = 0x5C then [0x5C, 0x5C]
      else if c < 0x20 then unicode_escape c
      else [c])"

text \<open>
  QuoteJSONString without the enclosing quotes: a surrogate pair is copied, a lone
  surrogate is written as a u-escape (well-formed JSON.stringify).
\<close>

fun quote_body :: "jsstring \<Rightarrow> jsstring" where
  "quote_body [] = []"
| "quote_body [c] =
     (if is_high_surrogate c \<or> is_low_surrogate c then unicode_escape c else quote_unit c)"
| "quote_body (c # d # cs) =
     (if is_high_surrogate c \<and> is_low_surrogate d then c # d # quote_body cs
      else if is_high_surrogate c \<or> is_low_surrogate c then unicode_escape c @ quote_body (d # cs)
      else quote_unit c @ quote_body (d # cs))"

definition quote_json_string :: "jsstring \<Rightarrow> jsstring" where
  "quote_json_string s = 0x22 # quote_body s @ [0x22]"

fun join_with :: "jsstring \<Rightarrow> jsstring list \<Rightarrow> jsstring" where
  "join_with sep [] = []"
| "join_with sep [x] = x"
| "join_with sep (x # y # ys) = x @ sep @ join_with sep (y # ys)"

text \<open>\<open>JSON.stringify\<close> with one argument, on a value that holds only JSON data.\<close>

fun JSON_stringify :: "json \<Rightarrow> jsstring" where
  "JSON_stringify JNull = js ''null''"
| "JSON_stringify (JBool b) = (if b then js ''true'' else js ''false'')"
| "JSON_stringify (JNum x) =
     (case x of Infinite neg \<Rightarrow> js ''null'' | Finite neg m e \<Rightarrow> number_to_string x)"
| "JSON_stringify (JStr s) = quote_json_string s"
| "JSON_stringify (JArr vs) = js ''['' @ join_with (js '','') (map JSON_stringify vs) @ js '']''"
| "JSON_stringify (JObj ms) =
     js ''{'' @
     join_with (js '','')
       (map (\<lambda>m. quote_json_string (fst m) @ js '':'' @ JSON_stringify (snd m)) ms) @
     js ''}''"

subsection \<open>Lexical analysis\<close>

datatype token =
    TLBrace | TRBrace | TLBrack | TRBrack | TColon | TComma
  | TNull | TTrue | TFalse
  | TStr jsstring
  | TNum jsnumber

definition hex_value :: "code_unit \<Rightarrow> nat option" where
  "hex_value c =
     (if 0x30 \<le> c \<and> c \<le> 0x39 then Some (unat c - 48)
      else if 0x41 \<le> c \<and> c \<le> 0x46 then Some (unat c - 55)
      else if 0x61 \<le> c \<and> c \<le> 0x66 then Some (unat c - 87)
      else None)"

definition hex4 :: "code_unit \<Rightarrow> code_unit \<Rightarrow> code_unit \<Rightarrow> code_unit \<Rightarrow> code_unit option" where
  "hex4 a b c d =
     (case (hex_value a, hex_value b, hex_value c, hex_value d) of
        (Some w, Some x, Some y, Some z) \<Rightarrow> Some (of_nat (w * 4096 + x * 256 + y * 16 + z))
      | _ \<Rightarrow> None)"

definition unescape :: "code_unit \<Rightarrow> code_unit option" where
  "unescape e =
     (if e = 0x22 then Some 0x22
      else if e = 0x5C then Some 0x5C
      else if e = 0x2F then Some 0x2F
      else if e = 0x62 then Some 0x08
      else if e = 0x66 then Some 0x0C
      else if e = 0x6E then Some 0x0A
      else if e = 0x72 then Some 0x0D
      else if e = 0x74 then Some 0x09
      else None)"

definition cons_unit :: "code_unit \<Rightarrow> (jsstring \<times> jsstring) option \<Rightarrow> (jsstring \<times> jsstring) option" where
  "cons_unit c r = map_option (\<lambda>p. (c # fst p, snd p)) r"

text \<open>
  The characters of a string literal after its opening quote: the string and the input
  after the closing quote.
\<close>

fun scan_string :: "jsstring \<Rightarrow> (jsstring \<times> jsstring) option" where
  "scan_string [] = None"
| "scan_string (c # cs) =
     (if c = 0x22 then Some ([], cs)
      else if c = 0x5C then
        (case cs of
           [] \<Rightarrow> None
         | e # es \<Rightarrow>
             if e = 0x75 then
               (case es of
                  h1 # h2 # h3 # h4 # es' \<Rightarrow>
                    (case hex4 h1 h2 h3 h4 of
                       None \<Rightarrow> None
                     | Some u \<Rightarrow> cons_unit u (scan_string es'))
                | _ \<Rightarrow> None)
             else (case unescape e of
                     None \<Rightarrow> None
                   | Some u \<Rightarrow> cons_unit u (scan_string es)))
      else if c < 0x20 then None
      else cons_unit c (scan_string cs))"

definition is_digit :: "code_unit \<Rightarrow> bool" where
  "is_digit c = (0x30 \<le> c \<and> c \<le> 0x39)"

definition digit_value :: "code_unit \<Rightarrow> nat" where
  "digit_value c = unat c - 48"

text \<open>
  A number literal: \<open>-? (0 | [1-9][0-9]*) (. [0-9]+)? ([eE] [+-]? [0-9]+)?\<close>. An integer
  part with a superfluous leading zero is refused here; the grammar would end the number
  after the zero and then refuse the digit that follows.
\<close>

definition scan_frac :: "jsstring \<Rightarrow> (jsstring \<times> jsstring) option" where
  "scan_frac cs =
     (case cs of
        [] \<Rightarrow> Some ([], cs)
      | c # r \<Rightarrow>
          if c = 0x2E then
            (if takeWhile is_digit r = [] then None
             else Some (takeWhile is_digit r, dropWhile is_digit r))
          else Some ([], cs))"

definition scan_exp_digits :: "bool \<Rightarrow> jsstring \<Rightarrow> (int \<times> jsstring) option" where
  "scan_exp_digits eneg r =
     (let ev = int (nat_of_digits (map digit_value (takeWhile is_digit r)))
      in if takeWhile is_digit r = [] then None
         else Some (if eneg then - ev else ev, dropWhile is_digit r))"

definition scan_exp :: "jsstring \<Rightarrow> (int \<times> jsstring) option" where
  "scan_exp cs =
     (case cs of
        [] \<Rightarrow> Some (0, cs)
      | c # r \<Rightarrow>
          if c = 0x65 \<or> c = 0x45 then
            (case r of
               [] \<Rightarrow> None
             | s # r' \<Rightarrow>
                 if s = 0x2B then scan_exp_digits False r'
                 else if s = 0x2D then scan_exp_digits True r'
                 else scan_exp_digits False r)
          else Some (0, cs))"

definition scan_number :: "jsstring \<Rightarrow> (jsnumber \<times> jsstring) option" where
  "scan_number cs =
     (let neg = (cs \<noteq> [] \<and> hd cs = 0x2D);
          cs1 = (if neg then tl cs else cs);
          ip = takeWhile is_digit cs1
      in if ip = [] \<or> (length ip > 1 \<and> hd ip = 0x30) then None
         else (case scan_frac (dropWhile is_digit cs1) of
                 None \<Rightarrow> None
               | Some (fp, cs3) \<Rightarrow>
                   (case scan_exp cs3 of
                      None \<Rightarrow> None
                    | Some (ev, cs4) \<Rightarrow>
                        Some (literal_number neg (map digit_value (ip @ fp))
                                (ev - int (length fp)), cs4))))"

definition is_json_whitespace :: "code_unit \<Rightarrow> bool" where
  "is_json_whitespace c = (c = 0x09 \<or> c = 0x0A \<or> c = 0x0D \<or> c = 0x20)"

definition starts_with :: "jsstring \<Rightarrow> jsstring \<Rightarrow> bool" where
  "starts_with p s = (take (length p) s = p)"

lemma cons_unit_Some:
  "cons_unit u r = Some (s, rest) \<longleftrightarrow> (\<exists>s'. r = Some (s', rest) \<and> s = u # s')"
  by (cases r) (auto simp: cons_unit_def)

lemma scan_string_shorter:
  "scan_string cs = Some (s, rest) \<Longrightarrow> length rest < length cs"
proof (induction cs arbitrary: s rest rule: scan_string.induct)
  case 1
  then show ?case by simp
next
  case (2 c cs)
  show ?case
  proof (cases "c = 0x22")
    case True
    with "2.prems" show ?thesis by auto
  next
    case notq: False
    show ?thesis
    proof (cases "c = 0x5C")
      case bs: True
      show ?thesis
      proof (cases cs)
        case Nil
        with notq bs "2.prems" show ?thesis by simp
      next
        case (Cons e es)
        show ?thesis
        proof (cases "e = 0x75")
          case True
          from notq bs Cons True "2.prems" obtain h1 h2 h3 h4 es' u s'
            where es: "es = h1 # h2 # h3 # h4 # es'" and "hex4 h1 h2 h3 h4 = Some u"
              and "scan_string es' = Some (s', rest)"
            by (auto simp: cons_unit_Some split: list.splits option.splits)
          with "2.IH"(1)[OF notq bs Cons True es] have "length rest < length es'" by simp
          with es Cons show ?thesis by simp
        next
          case False
          from notq bs Cons False "2.prems" obtain u s'
            where "unescape e = Some u" and "scan_string es = Some (s', rest)"
            by (auto simp: cons_unit_Some split: option.splits)
          with "2.IH"(2)[OF notq bs Cons False] have "length rest < length es" by simp
          with Cons show ?thesis by simp
        qed
      qed
    next
      case False
      with notq "2.prems" obtain s' where "\<not> c < 0x20" "scan_string cs = Some (s', rest)"
        by (auto simp: cons_unit_Some split: if_splits)
      with "2.IH"(3)[OF notq False] have "length rest < length cs" by simp
      then show ?thesis by simp
    qed
  qed
qed

lemma scan_frac_le: "scan_frac cs = Some (fp, r) \<Longrightarrow> length r \<le> length cs"
  by (auto simp: scan_frac_def le_SucI length_dropWhile_le split: list.splits if_splits)

lemma scan_exp_digits_le: "scan_exp_digits b cs = Some (ev, r) \<Longrightarrow> length r \<le> length cs"
  by (auto simp: scan_exp_digits_def Let_def length_dropWhile_le split: if_splits)

lemma scan_exp_le: "scan_exp cs = Some (ev, r) \<Longrightarrow> length r \<le> length cs"
  by (auto simp: scan_exp_def le_SucI dest!: scan_exp_digits_le split: list.splits if_splits)

lemma dropWhile_shorter: "takeWhile P xs \<noteq> [] \<Longrightarrow> length (dropWhile P xs) < length xs"
  by (cases xs) (auto simp: less_Suc_eq_le length_dropWhile_le split: if_splits)

lemma scan_number_shorter:
  assumes "scan_number cs = Some (x, rest)"
  shows "length rest < length cs"
proof -
  define cs1 where "cs1 = (if cs \<noteq> [] \<and> hd cs = 0x2D then tl cs else cs)"
  have l1: "length cs1 \<le> length cs" by (simp add: cs1_def)
  from assms have ip: "takeWhile is_digit cs1 \<noteq> []"
    by (auto simp: scan_number_def Let_def cs1_def split: if_splits)
  from assms ip obtain fp cs3 ev where
    f: "scan_frac (dropWhile is_digit cs1) = Some (fp, cs3)" and e: "scan_exp cs3 = Some (ev, rest)"
    by (auto simp: scan_number_def Let_def cs1_def split: if_splits option.splits)
  from dropWhile_shorter[OF ip] scan_frac_le[OF f] scan_exp_le[OF e] l1 show ?thesis by simp
qed

definition push_token :: "token \<Rightarrow> token list option \<Rightarrow> token list option" where
  "push_token t r = map_option (Cons t) r"

text \<open>The token sequence of a JSON text; \<open>None\<close> where no token matches.\<close>

function lex :: "jsstring \<Rightarrow> token list option" where
  "lex [] = Some []"
| "lex (c # cs) =
     (if is_json_whitespace c then lex cs
      else if c = 0x7B then push_token TLBrace (lex cs)
      else if c = 0x7D then push_token TRBrace (lex cs)
      else if c = 0x5B then push_token TLBrack (lex cs)
      else if c = 0x5D then push_token TRBrack (lex cs)
      else if c = 0x3A then push_token TColon (lex cs)
      else if c = 0x2C then push_token TComma (lex cs)
      else if c = 0x22 then
        (case scan_string cs of
           None \<Rightarrow> None
         | Some (s, rest) \<Rightarrow> push_token (TStr s) (lex rest))
      else if starts_with (js ''null'') (c # cs) then push_token TNull (lex (drop 3 cs))
      else if starts_with (js ''true'') (c # cs) then push_token TTrue (lex (drop 3 cs))
      else if starts_with (js ''false'') (c # cs) then push_token TFalse (lex (drop 4 cs))
      else (case scan_number (c # cs) of
              None \<Rightarrow> None
            | Some (x, rest) \<Rightarrow> push_token (TNum x) (lex rest)))"
  by pat_completeness auto
termination
  by (relation "measure length") (auto dest: scan_string_shorter scan_number_shorter)

declare lex.simps(2) [simp del]

subsection \<open>Objects\<close>

text \<open>
  The members of an object are kept in the order in which JavaScript enumerates own
  properties: array indices (canonical numerals below \<open>2 ^ 32 - 1\<close>) in ascending order,
  then the other keys in order of creation.
\<close>

definition array_index :: "jsstring \<Rightarrow> nat option" where
  "array_index k =
     (let n = nat_of_digits (map digit_value k)
      in if k \<noteq> [] \<and> list_all is_digit k \<and> (length k = 1 \<or> hd k \<noteq> 0x30) \<and> n < 4294967295
         then Some n else None)"

fun insert_index :: "nat \<Rightarrow> jsstring \<Rightarrow> json \<Rightarrow> (jsstring \<times> json) list \<Rightarrow> (jsstring \<times> json) list" where
  "insert_index i k v [] = [(k, v)]"
| "insert_index i k v (m # ms) =
     (case array_index (fst m) of
        None \<Rightarrow> (k, v) # m # ms
      | Some j \<Rightarrow> if i < j then (k, v) # m # ms else m # insert_index i k v ms)"

text \<open>CreateDataProperty: a key that exists keeps its place and takes the new value.\<close>

definition obj_put :: "jsstring \<Rightarrow> json \<Rightarrow> (jsstring \<times> json) list \<Rightarrow> (jsstring \<times> json) list" where
  "obj_put k v ms =
     (if map_of ms k \<noteq> None then map (\<lambda>m. if fst m = k then (k, v) else m) ms
      else (case array_index k of
              None \<Rightarrow> ms @ [(k, v)]
            | Some i \<Rightarrow> insert_index i k v ms))"

subsection \<open>Parsing\<close>

datatype frame = FArr "json list" | FObj "(jsstring \<times> json) list" | FKey jsstring

datatype pmode = PValue | PArrFirst | PObjFirst | PKey | PColon | PNext | PDone json

type_synonym pstate = "frame list \<times> pmode"

text \<open>A value is complete: it is the result, or goes into the container that is open.\<close>

fun complete :: "json \<Rightarrow> frame list \<Rightarrow> pstate option" where
  "complete v [] = Some ([], PDone v)"
| "complete v (FArr vs # st) = Some (FArr (vs @ [v]) # st, PNext)"
| "complete v (FKey k # FObj ms # st) = Some (FObj (obj_put k v ms) # st, PNext)"
| "complete v _ = None"

fun value_token :: "frame list \<Rightarrow> token \<Rightarrow> pstate option" where
  "value_token st TNull = complete JNull st"
| "value_token st TTrue = complete (JBool True) st"
| "value_token st TFalse = complete (JBool False) st"
| "value_token st (TStr s) = complete (JStr s) st"
| "value_token st (TNum x) = complete (JNum x) st"
| "value_token st TLBrack = Some (FArr [] # st, PArrFirst)"
| "value_token st TLBrace = Some (FObj [] # st, PObjFirst)"
| "value_token st _ = None"

fun close_array :: "frame list \<Rightarrow> pstate option" where
  "close_array (FArr vs # st) = complete (JArr vs) st"
| "close_array _ = None"

fun close_object :: "frame list \<Rightarrow> pstate option" where
  "close_object (FObj ms # st) = complete (JObj ms) st"
| "close_object _ = None"

fun key_token :: "frame list \<Rightarrow> token \<Rightarrow> pstate option" where
  "key_token st (TStr k) = Some (FKey k # st, PColon)"
| "key_token st _ = None"

fun next_token :: "frame list \<Rightarrow> token \<Rightarrow> pstate option" where
  "next_token (FArr vs # st) TComma = Some (FArr vs # st, PValue)"
| "next_token (FObj ms # st) TComma = Some (FObj ms # st, PKey)"
| "next_token st TRBrack = close_array st"
| "next_token st TRBrace = close_object st"
| "next_token st _ = None"

fun pstep :: "pstate \<Rightarrow> token \<Rightarrow> pstate option" where
  "pstep (st, PValue) t = value_token st t"
| "pstep (st, PArrFirst) t = (if t = TRBrack then close_array st else value_token st t)"
| "pstep (st, PObjFirst) t = (if t = TRBrace then close_object st else key_token st t)"
| "pstep (st, PKey) t = key_token st t"
| "pstep (st, PColon) t = (if t = TColon then Some (st, PValue) else None)"
| "pstep (st, PNext) t = next_token st t"
| "pstep (st, PDone v) t = None"

fun prun :: "pstate \<Rightarrow> token list \<Rightarrow> pstate option" where
  "prun p [] = Some p"
| "prun p (t # ts) = (case pstep p t of None \<Rightarrow> None | Some p' \<Rightarrow> prun p' ts)"

text \<open>\<open>JSON.parse\<close> with one argument; \<open>None\<close> is the SyntaxError it throws.\<close>

definition JSON_parse :: "jsstring \<Rightarrow> json option" where
  "JSON_parse text =
     (case lex text of
        None \<Rightarrow> None
      | Some ts \<Rightarrow>
          (case prun ([], PValue) ts of
             Some ([], PDone v) \<Rightarrow> Some v
           | _ \<Rightarrow> None))"

section \<open>Operations of the language on parsed values\<close>

text \<open>ToBoolean: what \<open>!x\<close> negates. \<open>None\<close> stands for \<open>undefined\<close>.\<close>

fun truthy :: "json option \<Rightarrow> bool" where
  "truthy None = False"
| "truthy (Some JNull) = False"
| "truthy (Some (JBool b)) = b"
| "truthy (Some (JNum x)) = (case x of Infinite neg \<Rightarrow> True | Finite neg m e \<Rightarrow> m \<noteq> 0)"
| "truthy (Some (JStr s)) = (s \<noteq> [])"
| "truthy (Some (JArr vs)) = True"
| "truthy (Some (JObj ms)) = True"

text \<open>
  Reading the property \<open>k\<close> of a parsed value, for the names the source reads
  (\<open>version\<close>, \<open>keyData\<close>, \<open>metadata\<close>), none of which is a built-in property of a string,
  number, boolean or array: \<open>None\<close> is the TypeError of reading a property of \<open>null\<close>,
  \<open>Some None\<close> is \<open>undefined\<close>.
\<close>

fun get_prop :: "json \<Rightarrow> jsstring \<Rightarrow> json option option" where
  "get_prop JNull k = None"
| "get_prop (JObj ms) k = Some (map_of ms k)"
| "get_prop v k = Some None"

text \<open>
  ToString, which \<open>atob\<close> and \<open>localStorage.setItem\<close> apply to their argument. An array
  joins its elements with commas, \<open>null\<close> elements as the empty string. An object is
  \<open>[object Object]\<close>, unless it has an own property \<open>toString\<close>: parsed data is never
  callable, and the conversion throws a TypeError (\<open>None\<close>).
\<close>

fun js_to_string :: "json \<Rightarrow> jsstring option" where
  "js_to_string JNull = Some (js ''null'')"
| "js_to_string (JBool b) = Some (if b then js ''true'' else js ''false'')"
| "js_to_string (JNum x) = Some (number_to_string x)"
| "js_to_string (JStr s) = Some s"
| "js_to_string (JArr vs) =
     map_option (join_with (js '',''))
       (those (map (\<lambda>v. if v = JNull then Some [] else js_to_string v) vs))"
| "js_to_string (JObj ms) =
     (if map_of ms (js ''toString'') \<noteq> None then None else Some (js ''[object Object]''))"

text \<open>
  The own enumerable properties that a spread \<open>{...v}\<close> copies: the members of an object,
  the elements of an array and the code units of a string under their indices, nothing
  for a number or a boolean.
\<close>

fun spread_props :: "json \<Rightarrow> (jsstring \<times> json) list" where
  "spread_props (JObj ms) = ms"
| "spread_props (JArr vs) = map (\<lambda>i. (nat_to_string i, vs ! i)) [0..<length vs]"
| "spread_props (JStr s) = map (\<lambda>i. (nat_to_string i, JStr [s ! i])) [0..<length s]"
| "spread_props v = []"

section \<open>crypto.ts: keys\<close>

text \<open>
  A CryptoKey of the Web Crypto API for AES-GCM, extractable, with the usages encrypt and
  decrypt: it is determined by its raw bytes.
\<close>

datatype CryptoKey = CryptoKey (raw_key: "byte list")

record EncryptionKey =
  cryptoKey :: CryptoKey
  keyData :: jsstring

text \<open>
  \<open>generateEncryptionKey\<close>: the 32 bytes that \<open>crypto.subtle.generateKey\<close> draws for a key
  of length 256 are an input of the model.
\<close>

definition generateEncryptionKey :: "byte list \<Rightarrow> error + EncryptionKey" where
  "generateEncryptionKey rawKey =
     (case arrayBufferToBase64 rawKey of
        None \<Rightarrow> Inl GenerateKeyFailed
      | Some kd \<Rightarrow> Inr \<lparr>cryptoKey = CryptoKey rawKey, keyData = kd\<rparr>)"

text \<open>
  \<open>crypto.subtle.importKey('raw', ...)\<close> for AES-GCM throws a DataError unless the data
  has 128, 192 or 256 bits; the \<open>length\<close> member that the source passes is not read by the
  import operation.
\<close>

definition subtle_importKey :: "byte list \<Rightarrow> CryptoKey option" where
  "subtle_importKey rawKey =
     (if length rawKey = 16 \<or> length rawKey = 24 \<or> length rawKey = 32
      then Some (CryptoKey rawKey) else None)"

definition importEncryptionKey :: "jsstring \<Rightarrow> error + CryptoKey" where
  "importEncryptionKey kd =
     (case base64ToArrayBuffer kd of
        None \<Rightarrow> Inl ImportKeyFailed
      | Some rawKey \<Rightarrow>
          (case subtle_importKey rawKey of
             None \<Rightarrow> Inl ImportKeyFailed
           | Some k \<Rightarrow> Inr k))"

section \<open>The platform cipher: AES-GCM\<close>

text \<open>
  \<open>crypto.subtle.encrypt\<close> and \<open>crypto.subtle.decrypt\<close> with the algorithm \<open>AES-GCM\<close> are
  functions of the platform. They are modelled from their standards: the block cipher of
  FIPS 197 and the mode of NIST SP 800-38D, with no additional data and the default tag of
  128 bits, as the Web Crypto API calls them.
\<close>

subsection \<open>The block cipher (FIPS 197)\<close>

text \<open>Multiplication by \<open>x\<close> and by any element in GF(2^8), modulo \<open>x^8 + x^4 + x^3 + x + 1\<close>.\<close>

definition xtime :: "byte \<Rightarrow> byte" where
  "xtime b = (if bit b 7 then push_bit 1 b XOR 0x1B else push_bit 1 b)"

fun gf_mul_loop :: "nat \<Rightarrow> byte \<Rightarrow> byte \<Rightarrow> byte" where
  "gf_mul_loop 0 a b = 0"
| "gf_mul_loop (Suc n) a b =
     (if bit b 0 then a else 0) XOR gf_mul_loop n (xtime a) (drop_bit 1 b)"

definition gf_mul :: "byte \<Rightarrow> byte \<Rightarrow> byte" where
  "gf_mul a b = gf_mul_loop 8 a b"

text \<open>The inverse is the power 254 (and 0 for 0): the product of the squares \<open>a^2 ... a^128\<close>.\<close>

definition gf_inv :: "byte \<Rightarrow> byte" where
  "gf_inv a =
     (let a2 = gf_mul a a; a4 = gf_mul a2 a2; a8 = gf_mul a4 a4; a16 = gf_mul a8 a8;
          a32 = gf_mul a16 a16; a64 = gf_mul a32 a32; a128 = gf_mul a64 a64
      in gf_mul a2 (gf_mul a4 (gf_mul a8 (gf_mul a16 (gf_mul a32 (gf_mul a64 a128))))))"

text \<open>The S-box: the inverse, then the affine transformation.\<close>

definition sub_byte :: "byte \<Rightarrow> byte" where
  "sub_byte a =
     (let b = gf_inv a
      in b XOR word_rotl 1 b XOR word_rotl 2 b XOR word_rotl 3 b XOR word_rotl 4 b XOR 0x63)"

text \<open>The state is a list of 16 bytes, column by column: row \<open>r\<close> of column \<open>c\<close> is at \<open>r + 4 c\<close>.\<close>

definition sub_bytes :: "byte list \<Rightarrow> byte list" where
  "sub_bytes s = map sub_byte s"

definition shift_rows :: "byte list \<Rightarrow> byte list" where
  "shift_rows s = map (\<lambda>i. s ! (i mod 4 + 4 * ((i div 4 + i mod 4) mod 4))) [0..<16]"

definition mix_column :: "byte list \<Rightarrow> byte list" where
  "mix_column col =
     (let a0 = col ! 0; a1 = col ! 1; a2 = col ! 2; a3 = col ! 3
      in [xtime a0 XOR (xtime a1 XOR a1) XOR a2 XOR a3,
          a0 XOR xtime a1 XOR (xtime a2 XOR a2) XOR a3,
          a0 XOR a1 XOR xtime a2 XOR (xtime a3 XOR a3),
          (xtime a0 XOR a0) XOR a1 XOR a2 XOR xtime a3])"

definition mix_columns :: "byte list \<Rightarrow> byte list" where
  "mix_columns s = concat (map (\<lambda>c. mix_column (take 4 (drop (4 * c) s))) [0..<4])"

definition xor_bytes :: "byte list \<Rightarrow> byte list \<Rightarrow> byte list" where
  "xor_bytes xs ys = map (\<lambda>p. fst p XOR snd p) (zip xs ys)"

text \<open>
  The key expansion, for a key of \<open>nk\<close> words of four bytes: the list of words grows by
  one word at a time until it has \<open>4 * (nr + 1)\<close> words, where \<open>nr = nk + 6\<close>.
\<close>

definition rcon :: "nat \<Rightarrow> byte list" where
  "rcon j = [(xtime ^^ (j - 1)) 1, 0, 0, 0]"

definition next_key_word :: "nat \<Rightarrow> byte list list \<Rightarrow> byte list" where
  "next_key_word nk ws =
     (let i = length ws;
          t = last ws;
          t' = (if i mod nk = 0 then xor_bytes (map sub_byte (rotate1 t)) (rcon (i div nk))
                else if 6 < nk \<and> i mod nk = 4 then map sub_byte t
                else t)
      in xor_bytes (ws ! (i - nk)) t')"

fun expand_words :: "nat \<Rightarrow> nat \<Rightarrow> byte list list \<Rightarrow> byte list list" where
  "expand_words 0 nk ws = ws"
| "expand_words (Suc n) nk ws = expand_words n nk (ws @ [next_key_word nk ws])"

definition key_words :: "byte list \<Rightarrow> byte list list" where
  "key_words k = map (\<lambda>i. take 4 (drop (4 * i) k)) [0..<length k div 4]"

definition key_expansion :: "byte list \<Rightarrow> byte list list" where
  "key_expansion k =
     (let nk = length k div 4
      in expand_words (4 * (nk + 7) - nk) nk (key_words k))"

definition round_key :: "byte list list \<Rightarrow> nat \<Rightarrow> byte list" where
  "round_key ws r = concat (take 4 (drop (4 * r) ws))"

fun cipher_rounds :: "byte list list \<Rightarrow> nat \<Rightarrow> nat \<Rightarrow> byte list \<Rightarrow> byte list" where
  "cipher_rounds ws r 0 s = s"
| "cipher_rounds ws r (Suc n) s =
     cipher_rounds ws (Suc r) n
       (xor_bytes (mix_columns (shift_rows (sub_bytes s))) (round_key ws r))"

text \<open>The cipher of FIPS 197 on a state of 16 bytes, for a key of 16, 24 or 32 bytes.\<close>

definition cipher :: "byte list \<Rightarrow> byte list \<Rightarrow> byte list" where
  "cipher k input =
     (let ws = key_expansion k;
          nr = length k div 4 + 6;
          s0 = xor_bytes input (round_key ws 0);
          s1 = cipher_rounds ws 1 (nr - 1) s0
      in xor_bytes (shift_rows (sub_bytes s1)) (round_key ws nr))"

subsection \<open>Blocks of 128 bits\<close>

type_synonym block = "128 word"

text \<open>A block and its 16 bytes, the first byte in the most significant position.\<close>

definition block_of_bytes :: "byte list \<Rightarrow> block" where
  "block_of_bytes bs = foldl (\<lambda>acc b. push_bit 8 acc OR ucast b) 0 bs"

definition bytes_of_block :: "block \<Rightarrow> byte list" where
  "bytes_of_block w = map (\<lambda>i. ucast (drop_bit (8 * (15 - i)) w)) [0..<16]"

definition aes_block :: "byte list \<Rightarrow> block \<Rightarrow> block" where
  "aes_block k b = block_of_bytes (cipher k (bytes_of_block b))"

subsection \<open>The mode (NIST SP 800-38D)\<close>

text \<open>
  Multiplication of blocks: bit \<open>i\<close> of the standard, counted from the left, is bit
  \<open>127 - i\<close> of the word, and \<open>R\<close> is \<open>11100001\<close> followed by 120 zeros.
\<close>

definition gcm_mul_step :: "block \<Rightarrow> nat \<Rightarrow> block \<times> block \<Rightarrow> block \<times> block" where
  "gcm_mul_step x i zv =
     (let z = fst zv; v = snd zv
      in (if bit x (127 - i) then z XOR v else z,
          if bit v 0 then drop_bit 1 v XOR push_bit 120 0xE1 else drop_bit 1 v))"

definition gcm_mul :: "block \<Rightarrow> block \<Rightarrow> block" where
  "gcm_mul x y = fst (fold (gcm_mul_step x) [0..<128] (0, y))"

text \<open>The blocks of a byte string, the last one padded with zeros.\<close>

function blocks_of :: "byte list \<Rightarrow> block list" where
  "blocks_of xs =
     (if xs = [] then []
      else block_of_bytes (take 16 xs @ replicate (16 - length xs) 0) # blocks_of (drop 16 xs))"
  by pat_completeness auto
termination
  by (relation "measure length") auto

declare blocks_of.simps [simp del]

definition ghash :: "block \<Rightarrow> block list \<Rightarrow> block" where
  "ghash h xs = foldl (\<lambda>y x. gcm_mul (y XOR x) h) 0 xs"

definition inc32 :: "block \<Rightarrow> block" where
  "inc32 w = (w AND NOT (mask 32)) OR ((w + 1) AND mask 32)"

function gctr :: "byte list \<Rightarrow> block \<Rightarrow> byte list \<Rightarrow> byte list" where
  "gctr k cb xs =
     (if xs = [] then []
      else xor_bytes (take 16 xs) (bytes_of_block (aes_block k cb)) @
           gctr k (inc32 cb) (drop 16 xs))"
  by pat_completeness auto
termination
  by (relation "measure (\<lambda>(k, cb, xs). length xs)") auto

declare gctr.simps [simp del]

text \<open>The block of the two lengths, in bits: no additional data, then the ciphertext.\<close>

definition length_block :: "nat \<Rightarrow> block" where
  "length_block n = of_nat (8 * n)"

text \<open>The pre-counter block: the nonce followed by the counter 1 when it has 96 bits.\<close>

definition pre_counter :: "block \<Rightarrow> byte list \<Rightarrow> block" where
  "pre_counter h nonce =
     (if length nonce = 12 then block_of_bytes (nonce @ [0, 0, 0, 1])
      else ghash h (blocks_of nonce @ [length_block (length nonce)]))"

definition gcm_tag :: "byte list \<Rightarrow> byte list \<Rightarrow> byte list \<Rightarrow> byte list" where
  "gcm_tag k nonce c =
     (let h = aes_block k 0;
          j0 = pre_counter h nonce;
          s = ghash h (blocks_of c @ [length_block (length c)])
      in bytes_of_block (aes_block k j0 XOR s))"

definition gcm_crypt :: "byte list \<Rightarrow> byte list \<Rightarrow> byte list \<Rightarrow> byte list" where
  "gcm_crypt k nonce xs = gctr k (inc32 (pre_counter (aes_block k 0) nonce)) xs"
subsection \<open>\<open>crypto.subtle.encrypt\<close> and \<open>crypto.subtle.decrypt\<close>\<close>

text \<open>
  The result of encryption is the ciphertext followed by the 16 bytes of the tag. Both
  operations throw an OperationError (\<open>None\<close>): encryption for a plaintext of more than
  \<open>2^39 - 256\<close> bytes, decryption for an input shorter than the tag or a tag that does not
  match, both for an empty nonce, which the mode does not define. The source always
  passes a nonce of 12 bytes to encryption; for a nonce of another length the definition
  of the standard is followed here, and a platform may refuse some of these lengths.
\<close>

definition subtle_encrypt :: "byte list \<Rightarrow> CryptoKey \<Rightarrow> byte list \<Rightarrow> byte list option" where
  "subtle_encrypt nonce k plaintext =
     (if nonce = [] \<or> 2 ^ 39 - 256 < length plaintext then None
      else (let c = gcm_crypt (raw_key k) nonce plaintext
            in Some (c @ gcm_tag (raw_key k) nonce c)))"

definition subtle_decrypt :: "byte list \<Rightarrow> CryptoKey \<Rightarrow> byte list \<Rightarrow> byte list option" where
  "subtle_decrypt nonce k input =
     (if nonce = [] \<or> length input < 16 then None
      else (let c = take (length input - 16) input;
                t = drop (length input - 16) input
            in if gcm_tag (raw_key k) nonce c = t
               then Some (gcm_crypt (raw_key k) nonce c) else None))"

section \<open>The platform text codec: \<open>TextEncoder\<close> and \<open>TextDecoder\<close>\<close>

text \<open>
  \<open>TextEncoder.encode\<close> converts its argument to a sequence of scalar values, a surrogate
  that is not part of a pair becoming U+FFFD, and writes UTF-8.
\<close>

fun utf16_decode :: "jsstring \<Rightarrow> nat list" where
  "utf16_decode [] = []"
| "utf16_decode [c] = (if is_high_surrogate c \<or> is_low_surrogate c then [0xFFFD] else [unat c])"
| "utf16_decode (c # d # cs) =
     (if is_high_surrogate c \<and> is_low_surrogate d
      then (0x10000 + (unat c - 0xD800) * 0x400 + (unat d - 0xDC00)) # utf16_decode cs
      else if is_high_surrogate c \<or> is_low_surrogate c then 0xFFFD # utf16_decode (d # cs)
      else unat c # utf16_decode (d # cs))"

definition utf8_encode_scalar :: "nat \<Rightarrow> byte list" where
  "utf8_encode_scalar cp =
     (if cp < 0x80 then [of_nat cp]
      else if cp < 0x800 then [of_nat (0xC0 + cp div 64), of_nat (0x80 + cp mod 64)]
      else if cp < 0x10000 then
        [of_nat (0xE0 + cp div 4096), of_nat (0x80 + cp div 64 mod 64), of_nat (0x80 + cp mod 64)]
      else
        [of_nat (0xF0 + cp div 262144), of_nat (0x80 + cp div 4096 mod 64),
         of_nat (0x80 + cp div 64 mod 64), of_nat (0x80 + cp mod 64)])"

definition TextEncoder_encode :: "jsstring \<Rightarrow> byte list" where
  "TextEncoder_encode s = concat (map utf8_encode_scalar (utf16_decode s))"

text \<open>
  The UTF-8 decoder of the Encoding standard, in the mode of \<open>new TextDecoder()\<close>: errors
  are replaced by U+FFFD (\<open>fatal\<close> is false) and a leading U+FEFF is removed (\<open>ignoreBOM\<close> is
  false). The state is the code point so far, the number of bytes still needed and the
  bounds of the next byte.
\<close>

record utf8_state =
  code_point :: nat
  bytes_needed :: nat
  lower_boundary :: nat
  upper_boundary :: nat

definition utf8_initial :: utf8_state where
  "utf8_initial = \<lparr>code_point = 0, bytes_needed = 0, lower_boundary = 0x80, upper_boundary = 0xBF\<rparr>"

text \<open>A byte read when no bytes are needed: what is emitted, and the next state.\<close>

definition utf8_lead :: "nat \<Rightarrow> nat list \<times> utf8_state" where
  "utf8_lead b =
     (if b \<le> 0x7F then ([b], utf8_initial)
      else if 0xC2 \<le> b \<and> b \<le> 0xDF then
        ([], utf8_initial\<lparr>code_point := b mod 32, bytes_needed := 1\<rparr>)
      else if 0xE0 \<le> b \<and> b \<le> 0xEF then
        ([], \<lparr>code_point = b mod 16, bytes_needed = 2,
              lower_boundary = (if b = 0xE0 then 0xA0 else 0x80),
              upper_boundary = (if b = 0xED then 0x9F else 0xBF)\<rparr>)
      else if 0xF0 \<le> b \<and> b \<le> 0xF4 then
        ([], \<lparr>code_point = b mod 8, bytes_needed = 3,
              lower_boundary = (if b = 0xF0 then 0x90 else 0x80),
              upper_boundary = (if b = 0xF4 then 0x8F else 0xBF)\<rparr>)
      else ([0xFFFD], utf8_initial))"

text \<open>
  One byte. A byte outside the bounds ends the sequence with an error and is read again
  as the first byte of the next one.
\<close>

definition utf8_step :: "utf8_state \<Rightarrow> nat \<Rightarrow> nat list \<times> utf8_state" where
  "utf8_step st b =
     (if bytes_needed st = 0 then utf8_lead b
      else if lower_boundary st \<le> b \<and> b \<le> upper_boundary st then
        (if bytes_needed st = 1 then ([code_point st * 64 + b mod 64], utf8_initial)
         else ([], \<lparr>code_point = code_point st * 64 + b mod 64,
                   bytes_needed = bytes_needed st - 1,
                   lower_boundary = 0x80, upper_boundary = 0xBF\<rparr>))
      else (0xFFFD # fst (utf8_lead b), snd (utf8_lead b)))"

fun utf8_decode :: "utf8_state \<Rightarrow> byte list \<Rightarrow> nat list" where
  "utf8_decode st [] = (if bytes_needed st \<noteq> 0 then [0xFFFD] else [])"
| "utf8_decode st (b # bs) = fst (utf8_step st (unat b)) @ utf8_decode (snd (utf8_step st (unat b))) bs"

definition utf16_encode_scalar :: "nat \<Rightarrow> jsstring" where
  "utf16_encode_scalar cp =
     (if cp < 0x10000 then [of_nat cp]
      else [of_nat (0xD800 + (cp - 0x10000) div 0x400), of_nat (0xDC00 + (cp - 0x10000) mod 0x400)])"

definition strip_bom :: "nat list \<Rightarrow> nat list" where
  "strip_bom cps = (case cps of [] \<Rightarrow> [] | c # r \<Rightarrow> if c = 0xFEFF then r else cps)"

definition TextDecoder_decode :: "byte list \<Rightarrow> jsstring" where
  "TextDecoder_decode bs = concat (map utf16_encode_scalar (strip_bom (utf8_decode utf8_initial bs)))"

section \<open>crypto.ts: encryption and decryption\<close>

record EncryptedData =
  ciphertext :: jsstring
  iv :: jsstring
  algorithm :: jsstring

text \<open>The template \<open>`${ALGORITHM}-${KEY_LENGTH}`\<close>.\<close>

definition ALGORITHM_TAG :: jsstring where
  "ALGORITHM_TAG = js ''AES-GCM-256''"

text \<open>
  \<open>encryptText\<close>. The 12 bytes that \<open>crypto.getRandomValues\<close> writes are an input of the
  model, \<open>rnd\<close>: the source takes them from the platform and from nowhere else.
\<close>

definition encryptText :: "byte list \<Rightarrow> jsstring \<Rightarrow> CryptoKey \<Rightarrow> error + EncryptedData" where
  "encryptText rnd text k =
     (case subtle_encrypt rnd k (TextEncoder_encode text) of
        None \<Rightarrow> Inl EncryptTextFailed
      | Some ct \<Rightarrow>
          (case (arrayBufferToBase64 ct, arrayBufferToBase64 rnd) of
             (Some c, Some i) \<Rightarrow> Inr \<lparr>ciphertext = c, iv = i, algorithm = ALGORITHM_TAG\<rparr>
           | _ \<Rightarrow> Inl EncryptTextFailed))"

definition decryptText :: "EncryptedData \<Rightarrow> CryptoKey \<Rightarrow> error + jsstring" where
  "decryptText encryptedData k =
     (case base64ToArrayBuffer (ciphertext encryptedData) of
        None \<Rightarrow> Inl DecryptTextFailed
      | Some ct \<Rightarrow>
          (case base64ToArrayBuffer (iv encryptedData) of
             None \<Rightarrow> Inl DecryptTextFailed
           | Some nonce \<Rightarrow>
               (case subtle_decrypt nonce k ct of
                  None \<Rightarrow> Inl DecryptTextFailed
                | Some decrypted \<Rightarrow> Inr (TextDecoder_decode decrypted))))"

text \<open>
  A Blob: its bytes and its MIME type. The constructor \<open>new Blob(parts, {type})\<close> keeps the
  type in ASCII lower case, and keeps the empty string when a character of the type is
  outside U+0020 to U+007E.
\<close>

record Blob =
  blob_bytes :: "byte list"
  blob_type :: jsstring

definition ascii_lowercase :: "code_unit \<Rightarrow> code_unit" where
  "ascii_lowercase c = (if 0x41 \<le> c \<and> c \<le> 0x5A then c + 0x20 else c)"

definition normalize_type :: "jsstring \<Rightarrow> jsstring" where
  "normalize_type t =
     (if list_all (\<lambda>c. 0x20 \<le> c \<and> c \<le> 0x7E) t then map ascii_lowercase t else [])"

definition new_Blob :: "byte list \<Rightarrow> jsstring \<Rightarrow> Blob" where
  "new_Blob bytes t = \<lparr>blob_bytes = bytes, blob_type = normalize_type t\<rparr>"

record EncryptedFile =
  encryptedBlob :: Blob
  file_iv :: jsstring
  file_algorithm :: jsstring

definition encryptFile :: "byte list \<Rightarrow> Blob \<Rightarrow> CryptoKey \<Rightarrow> error + EncryptedFile" where
  "encryptFile rnd file k =
     (case subtle_encrypt rnd k (blob_bytes file) of
        None \<Rightarrow> Inl EncryptFileFailed
      | Some ct \<Rightarrow>
          (case arrayBufferToBase64 rnd of
             None \<Rightarrow> Inl EncryptFileFailed
           | Some i \<Rightarrow>
               Inr \<lparr>encryptedBlob = new_Blob ct (js ''application/octet-stream''),
                    file_iv = i, file_algorithm = ALGORITHM_TAG\<rparr>))"

text \<open>
  \<open>decryptFile\<close>; the caller's \<open>originalType\<close> is 'image/jpeg' when the argument is left
  out.
\<close>

definition decryptFile :: "Blob \<Rightarrow> jsstring \<Rightarrow> CryptoKey \<Rightarrow> jsstring \<Rightarrow> error + Blob" where
  "decryptFile blob i k originalType =
     (case base64ToArrayBuffer i of
        None \<Rightarrow> Inl DecryptFileFailed
      | Some nonce \<Rightarrow>
          (case subtle_decrypt nonce k (blob_bytes blob) of
             None \<Rightarrow> Inl DecryptFileFailed
           | Some decrypted \<Rightarrow> Inr (new_Blob decrypted originalType)))"
section \<open>keyStorage.ts\<close>

text \<open>
  \<open>localStorage\<close>: a map from keys to strings; \<open>getItem\<close> of a missing key is \<open>null\<close>.
  The storage is taken to be available. For the records that \<open>generateAndStoreKey\<close>
  writes, a key text of 44 characters and a metadata object of four fields, it is
  taken to be within its quota too; \<open>importKeyFromBackup\<close> writes what the caller
  supplies, and there the limits of the platform are an input, see below.
\<close>

type_synonym storage = "jsstring \<rightharpoonup> jsstring"

definition getItem :: "storage \<Rightarrow> jsstring \<Rightarrow> jsstring option" where
  "getItem ls k = ls k"

definition setItem :: "storage \<Rightarrow> jsstring \<Rightarrow> jsstring \<Rightarrow> storage" where
  "setItem ls k v = ls(k \<mapsto> v)"

definition removeItem :: "storage \<Rightarrow> jsstring \<Rightarrow> storage" where
  "removeItem ls k = ls(k := None)"

definition KEY_PREFIX :: jsstring where
  "KEY_PREFIX = js ''reflections_encryption_key_''"

definition METADATA_PREFIX :: jsstring where
  "METADATA_PREFIX = js ''reflections_key_metadata_''"

definition KEY_VERSION :: jsstring where
  "KEY_VERSION = js ''1.0''"

text \<open>\<open>!x\<close> on the result of \<open>getItem\<close>: true for \<open>null\<close> and for the empty string.\<close>

definition falsy_item :: "jsstring option \<Rightarrow> bool" where
  "falsy_item x = (x = None \<or> x = Some [])"

record StoredKey =
  key :: CryptoKey
  metadata :: json

text \<open>The object literal of \<open>generateAndStoreKey\<close>; \<open>now\<close> is the value of \<open>Date.now()\<close>.\<close>

definition new_metadata :: "nat \<Rightarrow> jsstring \<Rightarrow> json" where
  "new_metadata now userId =
     JObj [(js ''version'', JStr KEY_VERSION),
           (js ''createdAt'', JNum (number_of_nat now)),
           (js ''algorithm'', JStr (js ''AES-256-GCM'')),
           (js ''userId'', JStr userId)]"

definition generateAndStoreKey ::
  "byte list \<Rightarrow> nat \<Rightarrow> storage \<Rightarrow> jsstring \<Rightarrow> (error + StoredKey) \<times> storage" where
  "generateAndStoreKey rawKey now ls userId =
     (case generateEncryptionKey rawKey of
        Inl e \<Rightarrow> (Inl GenerateKeyFailed, ls)
      | Inr ek \<Rightarrow>
          (let md = new_metadata now userId;
               ls1 = setItem ls (KEY_PREFIX @ userId) (keyData ek);
               ls2 = setItem ls1 (METADATA_PREFIX @ userId) (JSON_stringify md)
           in (Inr \<lparr>key = cryptoKey ek, metadata = md\<rparr>, ls2)))"

text \<open>\<open>getStoredKey\<close>: \<open>Inr None\<close> is the \<open>null\<close> it returns.\<close>

definition getStoredKey :: "storage \<Rightarrow> jsstring \<Rightarrow> error + StoredKey option" where
  "getStoredKey ls userId =
     (let kd = getItem ls (KEY_PREFIX @ userId);
          metadataStr = getItem ls (METADATA_PREFIX @ userId)
      in if falsy_item kd \<or> falsy_item metadataStr then Inr None
         else (case JSON_parse (the metadataStr) of
                 None \<Rightarrow> Inl RetrieveKeyFailed
               | Some md \<Rightarrow>
                   (case importEncryptionKey (the kd) of
                      Inl e \<Rightarrow> Inl RetrieveKeyFailed
                    | Inr k \<Rightarrow> Inr (Some \<lparr>key = k, metadata = md\<rparr>))))"


text \<open>
  The backup bundle of \<open>exportKeyForBackup\<close>. \<open>JSON.stringify\<close> leaves out a property whose
  value is \<open>undefined\<close>, as \<open>version\<close> is when the stored metadata has none.
\<close>

definition backup_bundle :: "json option \<Rightarrow> jsstring \<Rightarrow> json \<Rightarrow> nat \<Rightarrow> json" where
  "backup_bundle ver kd md now =
     JObj ((case ver of None \<Rightarrow> [] | Some v \<Rightarrow> [(js ''version'', v)]) @
           [(js ''keyData'', JStr kd),
            (js ''metadata'', md),
            (js ''exportedAt'', JNum (number_of_nat now))])"

definition exportKeyForBackup :: "nat \<Rightarrow> storage \<Rightarrow> jsstring \<Rightarrow> error + jsstring" where
  "exportKeyForBackup now ls userId =
     (let kd = getItem ls (KEY_PREFIX @ userId);
          metadataStr = getItem ls (METADATA_PREFIX @ userId)
      in if falsy_item kd \<or> falsy_item metadataStr then Inl ExportKeyFailed
         else (case JSON_parse (the metadataStr) of
                 None \<Rightarrow> Inl ExportKeyFailed
               | Some md \<Rightarrow>
                   (case get_prop md (js ''version'') of
                      None \<Rightarrow> Inl ExportKeyFailed
                    | Some ver \<Rightarrow>
                        (case btoa (JSON_stringify (backup_bundle ver (the kd) md now)) of
                           None \<Rightarrow> Inl ExportKeyFailed
                         | Some b \<Rightarrow> Inr b))))"

text \<open>The object \<open>{...backup.metadata, userId}\<close>.\<close>

definition rewritten_metadata :: "json \<Rightarrow> jsstring \<Rightarrow> json" where
  "rewritten_metadata md userId = JObj (obj_put (js ''userId'') (JStr userId) (spread_props md))"

text \<open>
  The limits of the platform that \<open>importKeyFromBackup\<close> can meet. The conversion of a
  value to a string, which joins the elements of an array, and \<open>JSON.stringify\<close> descend
  into the value and throw a \<open>RangeError\<close> when it is nested deeper than the stack of the
  engine allows (\<open>JSON.stringify\<close> also when the text gets longer than a string can be),
  and \<open>setItem\<close> throws a \<open>QuotaExceededError\<close> when the storage has no room for the
  item. Which values are converted and serialised and which items are accepted is the
  platform's.
\<close>

record platform =
  converts :: "json \<Rightarrow> bool"
  serialises :: "json \<Rightarrow> bool"
  accepts :: "storage \<Rightarrow> jsstring \<Rightarrow> jsstring \<Rightarrow> bool"

definition try_to_string :: "platform \<Rightarrow> json \<Rightarrow> jsstring option" where
  "try_to_string pf v = (if converts pf v then js_to_string v else None)"

definition try_stringify :: "platform \<Rightarrow> json \<Rightarrow> jsstring option" where
  "try_stringify pf v = (if serialises pf v then Some (JSON_stringify v) else None)"

definition try_setItem :: "platform \<Rightarrow> storage \<Rightarrow> jsstring \<Rightarrow> jsstring \<Rightarrow> storage option" where
  "try_setItem pf ls k v = (if accepts pf ls k v then Some (setItem ls k v) else None)"

text \<open>
  \<open>importKeyFromBackup\<close>. All of its body is inside one \<open>try\<close>, whose \<open>catch\<close> throws
  'Failed to import encryption key. The backup may be corrupted.' The key is written
  before the metadata is serialised and written: when one of these two throws, the key
  slot has the new key already.
\<close>

definition importKeyFromBackup ::
  "platform \<Rightarrow> storage \<Rightarrow> jsstring \<Rightarrow> jsstring \<Rightarrow> (error + StoredKey) \<times> storage" where
  "importKeyFromBackup pf ls userId backupData =
     (case atob backupData of
        None \<Rightarrow> (Inl ImportBackupFailed, ls)
      | Some backupStr \<Rightarrow>
     (case JSON_parse backupStr of
        None \<Rightarrow> (Inl ImportBackupFailed, ls)
      | Some backup \<Rightarrow>
     (case get_prop backup (js ''keyData'') of
        None \<Rightarrow> (Inl ImportBackupFailed, ls)
      | Some bkd \<Rightarrow>
     (case get_prop backup (js ''metadata'') of
        None \<Rightarrow> (Inl ImportBackupFailed, ls)
      | Some bmd \<Rightarrow>
          if \<not> truthy bkd \<or> \<not> truthy bmd then (Inl ImportBackupFailed, ls)
          else (case try_to_string pf (the bkd) of
                  None \<Rightarrow> (Inl ImportBackupFailed, ls)
                | Some kd \<Rightarrow>
                    (case importEncryptionKey kd of
                       Inl e \<Rightarrow> (Inl ImportBackupFailed, ls)
                     | Inr k \<Rightarrow>
                         (let md = rewritten_metadata (the bmd) userId
                          in case try_setItem pf ls (KEY_PREFIX @ userId) kd of
                               None \<Rightarrow> (Inl ImportBackupFailed, ls)
                             | Some ls1 \<Rightarrow>
                                 (case try_stringify pf md of
                                    None \<Rightarrow> (Inl ImportBackupFailed, ls1)
                                  | Some mdStr \<Rightarrow>
                                      (case try_setItem pf ls1 (METADATA_PREFIX @ userId) mdStr of
                                         None \<Rightarrow> (Inl ImportBackupFailed, ls1)
                                       | Some ls2 \<Rightarrow>
                                           (Inr \<lparr>key = k, metadata = md\<rparr>, ls2))))))))))"

definition deleteKey :: "storage \<Rightarrow> jsstring \<Rightarrow> storage" where
  "deleteKey ls userId =
     removeItem (removeItem ls (KEY_PREFIX @ userId)) (METADATA_PREFIX @ userId)"

definition hasStoredKey :: "storage \<Rightarrow> jsstring \<Rightarrow> bool" where
  "hasStoredKey ls userId = (getItem ls (KEY_PREFIX @ userId) \<noteq> None)"

text \<open>
  \<open>getKeyMetadata\<close>: the \<open>SyntaxError\<close> of \<open>JSON.parse\<close> is caught and becomes \<open>null\<close>,
  which is \<open>JNull\<close> here. No statement of the function throws to its caller.
\<close>

definition getKeyMetadata :: "storage \<Rightarrow> jsstring \<Rightarrow> error + json" where
  "getKeyMetadata ls userId =
     (let metadataStr = getItem ls (METADATA_PREFIX @ userId)
      in if falsy_item metadataStr then Inr JNull
         else (case JSON_parse (the metadataStr) of
                 None \<Rightarrow> Inr JNull
               | Some md \<Rightarrow> Inr md))"

section \<open>Compositions that the properties are about\<close>

text \<open>\<open>decryptText(encryptText(text, key), key')\<close>: an error of either call is the result.\<close>

definition encrypt_then_decrypt :: "byte list \<Rightarrow> jsstring \<Rightarrow> CryptoKey \<Rightarrow> CryptoKey \<Rightarrow> error + jsstring" where
  "encrypt_then_decrypt rnd text k k' =
     (case encryptText rnd text k of
        Inl e \<Rightarrow> Inl e
      | Inr encryptedData \<Rightarrow> decryptText encryptedData k')"





section \<open>Auxiliary definitions\<close>

text \<open>
  Notions that the statements and proofs use and the source does not have: the sextets
  and the padding of a base64 encoding, what may follow a number literal, the tokens of
  the metadata object, scalar values, and the bundle of a freshly generated record.
\<close>

fun b64_sextets :: "nat list \<Rightarrow> nat list" where
  "b64_sextets (a # b # c # rest) =
     (a div 4) # ((a mod 4) * 16 + b div 16) # ((b mod 16) * 4 + c div 64) # (c mod 64) #
     b64_sextets rest"
| "b64_sextets [a, b] = [a div 4, (a mod 4) * 16 + b div 16, (b mod 16) * 4]"
| "b64_sextets [a] = [a div 4, (a mod 4) * 16]"
| "b64_sextets [] = []"

definition b64_padding :: "nat list \<Rightarrow> nat" where
  "b64_padding bs = (3 - length bs mod 3) mod 3"

definition ends_number :: "jsstring \<Rightarrow> bool" where
  "ends_number r = (r = [] \<or> \<not> (is_digit (hd r) \<or> hd r = 0x2E \<or> hd r = 0x65 \<or> hd r = 0x45))"

definition metadata_tokens :: "nat \<Rightarrow> jsstring \<Rightarrow> token list" where
  "metadata_tokens now userId =
     [TLBrace, TStr (js ''version''), TColon, TStr KEY_VERSION, TComma,
      TStr (js ''createdAt''), TColon, TNum (number_of_nat now), TComma,
      TStr (js ''algorithm''), TColon, TStr (js ''AES-256-GCM''), TComma,
      TStr (js ''userId''), TColon, TStr userId, TRBrace]"

text \<open>\<open>String.prototype.isWellFormed\<close>: no surrogate outside a pair.\<close>

fun is_well_formed :: "jsstring \<Rightarrow> bool" where
  "is_well_formed [] = True"
| "is_well_formed [c] = (\<not> (is_high_surrogate c \<or> is_low_surrogate c))"
| "is_well_formed (c # d # cs) =
     (if is_high_surrogate c \<and> is_low_surrogate d then is_well_formed cs
      else \<not> (is_high_surrogate c \<or> is_low_surrogate c) \<and> is_well_formed (d # cs))"

definition is_scalar :: "nat \<Rightarrow> bool" where
  "is_scalar cp = (cp < 0x110000 \<and> \<not> (0xD800 \<le> cp \<and> cp \<le> 0xDFFF))"

text \<open>The text of the bundle, for a record that \<open>generateAndStoreKey\<close> wrote.\<close>

definition bundle_of :: "jsstring \<Rightarrow> nat \<Rightarrow> jsstring \<Rightarrow> nat \<Rightarrow> json" where
  "bundle_of kd now userId now' =
     backup_bundle (Some (JStr KEY_VERSION)) kd (new_metadata now userId) now'"

section \<open>Example values\<close>

text \<open>A user, key bytes and their base64 text, and storages for that user.\<close>

definition example_user :: jsstring where
  "example_user = js ''u2''"

definition example_raw_key :: "byte list" where
  "example_raw_key = map of_nat [0..<32]"

text \<open>The base64 text of the bytes 0, 1, ..., 31.\<close>

definition example_keyData :: jsstring where
  "example_keyData = js ''AAECAwQFBgcICQoLDA0ODxAREhMUFRYXGBkaGxwdHh8=''"

text \<open>A storage in which the user \<open>u2\<close> has a key record.\<close>

definition example_storage :: storage where
  "example_storage =
     [KEY_PREFIX @ example_user \<mapsto> example_keyData,
      METADATA_PREFIX @ example_user \<mapsto> js ''{\"userId\":\"u2\"}'']"

text \<open>A storage in which the metadata slot of \<open>u2\<close> holds text that is not JSON.\<close>

definition unparsable_storage :: storage where
  "unparsable_storage =
     [KEY_PREFIX @ example_user \<mapsto> example_keyData,
      METADATA_PREFIX @ example_user \<mapsto> js ''{oops'']"

text \<open>A storage in which the metadata slot of \<open>u2\<close> is present and holds the empty string.\<close>

definition empty_slot_storage :: storage where
  "empty_slot_storage =
     [KEY_PREFIX @ example_user \<mapsto> example_keyData,
      METADATA_PREFIX @ example_user \<mapsto> []]"

text \<open>The base64 text of the bytes 32, 33, ..., 63: a second key.\<close>

definition backup_raw_key :: "byte list" where
  "backup_raw_key = map of_nat [32..<64]"

definition backup_keyData :: jsstring where
  "backup_keyData = js ''ICEiIyQlJicoKSorLC0uLzAxMjM0NTY3ODk6Ozw9Pj8=''"

text \<open>
  Three backup strings, each the base64 text of a JSON text: a bundle with the second key
  and a metadata object, a bundle whose \<open>metadata\<close> field is the empty string, and a bundle
  with no \<open>keyData\<close> field.
\<close>

definition good_backup_text :: jsstring where
  "good_backup_text = js ''{\"keyData\":\"ICEiIyQlJicoKSorLC0uLzAxMjM0NTY3ODk6Ozw9Pj8=\",\"metadata\":{\"userId\":\"old\"}}''"

definition good_backup :: jsstring where
  "good_backup = js ''eyJrZXlEYXRhIjoiSUNFaUl5UWxKaWNvS1NvckxDMHVMekF4TWpNME5UWTNPRGs2T3p3OVBqOD0iLCJtZXRhZGF0YSI6eyJ1c2VySWQiOiJvbGQifX0=''"

definition blank_metadata_backup_text :: jsstring where
  "blank_metadata_backup_text = js ''{\"keyData\":\"ICEiIyQlJicoKSorLC0uLzAxMjM0NTY3ODk6Ozw9Pj8=\",\"metadata\":\"\"}''"

definition blank_metadata_backup :: jsstring where
  "blank_metadata_backup = js ''eyJrZXlEYXRhIjoiSUNFaUl5UWxKaWNvS1NvckxDMHVMekF4TWpNME5UWTNPRGs2T3p3OVBqOD0iLCJtZXRhZGF0YSI6IiJ9''"

definition no_keyData_backup :: jsstring where
  "no_keyData_backup = js ''eyJtZXRhZGF0YSI6e319''"

text \<open>A bundle with the second key and a metadata object of two fields.\<close>

definition long_metadata_backup_text :: jsstring where
  "long_metadata_backup_text = js ''{\"keyData\":\"ICEiIyQlJicoKSorLC0uLzAxMjM0NTY3ODk6Ozw9Pj8=\",\"metadata\":{\"userId\":\"old\",\"device\":\"laptop\"}}''"

definition long_metadata_backup :: jsstring where
  "long_metadata_backup = js ''eyJrZXlEYXRhIjoiSUNFaUl5UWxKaWNvS1NvckxDMHVMekF4TWpNME5UWTNPRGs2T3p3OVBqOD0iLCJtZXRhZGF0YSI6eyJ1c2VySWQiOiJvbGQiLCJkZXZpY2UiOiJsYXB0b3AifX0=''"

text \<open>
  Two platforms: one without limits, and one whose storage is at its quota, where an item
  can be replaced by one that is not longer and nothing else fits.
\<close>

definition roomy_platform :: platform where
  "roomy_platform =
     \<lparr>converts = (\<lambda>v. True), serialises = (\<lambda>v. True), accepts = (\<lambda>ls k v. True)\<rparr>"

definition full_platform :: platform where
  "full_platform =
     \<lparr>converts = (\<lambda>v. True),
      serialises = (\<lambda>v. True),
      accepts = (\<lambda>ls k v. case getItem ls k of None \<Rightarrow> False
                                              | Some old \<Rightarrow> length v \<le> length old)\<rparr>"

definition omega_user :: jsstring where
  "omega_user = [0x3A9]"

definition omega_storage :: storage where
  "omega_storage = snd (generateAndStoreKey example_raw_key 1700000000000 Map.empty omega_user)"

text \<open>The key of the examples, and the 12 bytes of a nonce.\<close>

definition example_key :: CryptoKey where
  "example_key = CryptoKey example_raw_key"

definition example_nonce :: "byte list" where
  "example_nonce = map of_nat [1..<13]"

text \<open>The first bytes of a JPEG file, and a file with no bytes.\<close>

definition jpeg_header :: Blob where
  "jpeg_header =
     \<lparr>blob_bytes = [0xFF, 0xD8, 0xFF, 0xE0, 0x00, 0x10, 0x4A, 0x46], blob_type = js ''image/jpeg''\<rparr>"

definition empty_file :: Blob where
  "empty_file = \<lparr>blob_bytes = [], blob_type = js ''text/plain''\<rparr>"

definition hello_earth :: jsstring where
  "hello_earth = js ''hello '' @ [0xD83C, 0xDF0D]"


section \<open>Base64 round trip\<close>

lemma b64_encode_split:
  "b64_encode bs = map b64_char (b64_sextets bs) @ replicate (b64_padding bs) 0x3D"
  by (induction bs rule: b64_encode.induct) (simp_all add: b64_padding_def numeral_2_eq_2)

lemma b64_sextets_bound:
  "list_all (\<lambda>b. b < 256) bs \<Longrightarrow> list_all (\<lambda>x. x < 64) (b64_sextets bs)"
  by (induction bs rule: b64_sextets.induct) auto

lemma b64_decode_sextets:
  "list_all (\<lambda>b. b < 256) bs \<Longrightarrow> b64_decode (b64_sextets bs) = bs"
  by (induction bs rule: b64_sextets.induct) auto

lemma unat_b64_char:
  "n < 64 \<Longrightarrow> unat (b64_char n) =
     (if n < 26 then n + 65 else if n < 52 then n + 71 else if n < 62 then n - 4
      else if n = 62 then 43 else 47)"
  by (simp add: b64_char_def unat_of_nat del: of_nat_add of_nat_diff)

lemma b64_index_unat:
  "b64_index c =
     (if 65 \<le> unat c \<and> unat c \<le> 90 then Some (unat c - 65)
      else if 97 \<le> unat c \<and> unat c \<le> 122 then Some (unat c - 71)
      else if 48 \<le> unat c \<and> unat c \<le> 57 then Some (unat c + 4)
      else if unat c = 43 then Some 62
      else if unat c = 47 then Some 63
      else None)"
  by (simp add: b64_index_def word_le_nat_alt word_unat_eq_iff)

lemma b64_index_char: "n < 64 \<Longrightarrow> b64_index (b64_char n) = Some n"
  by (auto simp: b64_index_unat unat_b64_char)

lemma b64_char_plain: "n < 64 \<Longrightarrow> \<not> is_ascii_whitespace (b64_char n) \<and> b64_char n \<noteq> 0x3D"
  by (auto simp: is_ascii_whitespace_def word_unat_eq_iff unat_b64_char)

lemma those_map_b64_index:
  "list_all (\<lambda>x. x < 64) sx \<Longrightarrow> those (map b64_index (map b64_char sx)) = Some sx"
  by (induction sx) (auto simp: b64_index_char)

lemma filter_ws_pad:
  "filter (\<lambda>c. \<not> is_ascii_whitespace c) (replicate p 0x3D) = replicate p 0x3D"
  by (induction p) (simp_all add: is_ascii_whitespace_def)

lemma filter_ws_b64:
  "list_all (\<lambda>x. x < 64) sx \<Longrightarrow>
   filter (\<lambda>c. \<not> is_ascii_whitespace c) (map b64_char sx @ replicate p 0x3D) =
   map b64_char sx @ replicate p 0x3D"
  by (induction sx) (simp_all add: b64_char_plain filter_ws_pad)

lemma strip_padding_pad:
  assumes "length (xs @ replicate p (0x3D :: code_unit)) mod 4 = 0" and "p \<le> 2"
    and "xs = [] \<or> last xs \<noteq> 0x3D" and "p = 0 \<or> xs \<noteq> []"
  shows "strip_padding (xs @ replicate p 0x3D) = xs"
proof -
  consider "p = 0" | "p = 1" | "p = 2" using assms(2) by linarith
  then show ?thesis
  proof cases
    case 1
    with assms show ?thesis by (auto simp: strip_padding_def)
  next
    case 2
    with assms show ?thesis by (auto simp: strip_padding_def butlast_append)
  next
    case 3
    with assms show ?thesis
      by (auto simp: strip_padding_def butlast_append numeral_2_eq_2)
  qed
qed

lemma b64_padding_step: "b64_padding (a # b # c # rest) = b64_padding rest"
proof -
  have "length (a # b # c # rest) = length rest + 3" by simp
  then show ?thesis unfolding b64_padding_def by (simp del: length_Cons)
qed

lemma b64_sextets_length: "(length (b64_sextets bs) + b64_padding bs) mod 4 = 0"
proof (induction bs rule: b64_sextets.induct)
  case (1 a b c rest)
  have l: "length (b64_sextets (a # b # c # rest)) = length (b64_sextets rest) + 4" by simp
  show ?case unfolding l b64_padding_step using 1 by presburger
qed (simp_all add: b64_padding_def)

lemma b64_sextets_Nil: "b64_sextets bs = [] \<longleftrightarrow> bs = []"
  by (induction bs rule: b64_sextets.induct) simp_all

lemma b64_sextets_mod: "length (b64_sextets bs) mod 4 \<noteq> 1"
  by (induction bs rule: b64_sextets.induct) simp_all

text \<open>Decoding what \<open>btoa\<close> wrote gives the binary string back.\<close>

lemma atob_b64_encode:
  assumes "list_all (\<lambda>b. b < 256) bs"
  shows "atob (b64_encode bs) = Some (map of_nat bs)"
proof -
  let ?sx = "b64_sextets bs"
  let ?body = "map b64_char ?sx"
  have sx: "list_all (\<lambda>x. x < 64) ?sx" using assms by (rule b64_sextets_bound)
  have len: "length (?body @ replicate (b64_padding bs) (0x3D :: code_unit)) mod 4 = 0"
    using b64_sextets_length[of bs] by simp
  have last: "?body = [] \<or> last ?body \<noteq> 0x3D"
  proof (cases "?sx = []")
    case True then show ?thesis by simp
  next
    case False
    then have "last ?sx \<in> set ?sx" by simp
    with sx have "last ?sx < 64" by (simp add: list_all_iff)
    with False show ?thesis by (simp add: last_map b64_char_plain)
  qed
  have pad: "b64_padding bs \<le> 2" by (simp add: b64_padding_def)
  have ne: "b64_padding bs = 0 \<or> ?body \<noteq> []"
    by (cases bs) (simp_all add: b64_padding_def b64_sextets_Nil)
  have strip: "strip_padding (?body @ replicate (b64_padding bs) 0x3D) = ?body"
    using len pad last ne by (rule strip_padding_pad)
  have m: "length ?body mod 4 \<noteq> 1" using b64_sextets_mod[of bs] by simp
  have enc: "b64_encode bs = ?body @ replicate (b64_padding bs) 0x3D"
    by (rule b64_encode_split)
  have f: "filter (\<lambda>c. \<not> is_ascii_whitespace c) (b64_encode bs) = b64_encode bs"
    unfolding enc by (rule filter_ws_b64[OF sx])
  have st: "strip_padding (b64_encode bs) = ?body"
    unfolding enc by (rule strip)
  show ?thesis
    unfolding atob_def f st Let_def
    using m by (simp add: those_map_b64_index[OF sx] b64_decode_sextets[OF assms] del: map_map)
qed

lemma atob_btoa:
  assumes "list_all (\<lambda>c. c \<le> 0xFF) s"
  shows "\<exists>e. btoa s = Some e \<and> atob e = Some s"
proof -
  have b: "list_all (\<lambda>b. b < 256) (map unat s)"
    using assms by (induction s) (auto simp: word_le_nat_alt)
  have "map of_nat (map unat s) = s" by (induction s) simp_all
  with atob_b64_encode[OF b] assms show ?thesis by (simp add: btoa_def)
qed

lemma base64_roundtrip:
  "\<exists>e. arrayBufferToBase64 buffer = Some e \<and> base64ToArrayBuffer e = Some buffer"
proof -
  have le: "list_all (\<lambda>c. c \<le> 0xFF) (map ucast buffer :: jsstring)"
  proof (induction buffer)
    case Nil then show ?case by simp
  next
    case (Cons b bs)
    have "unat b < 2 ^ LENGTH(8)" by (rule unsigned_less)
    then have "(ucast b :: code_unit) \<le> 0xFF"
      by (simp add: word_le_nat_alt unsigned_ucast_eq take_bit_nat_eq_self)
    with Cons show ?case by simp
  qed
  have inv: "map ucast (map ucast buffer :: jsstring) = buffer"
    by (induction buffer) (simp_all add: ucast_up_ucast_id is_up)
  from atob_btoa[OF le] obtain e where "btoa (map ucast buffer) = Some e"
    and "atob e = Some (map ucast buffer)" by blast
  with inv show ?thesis
    by (simp add: arrayBufferToBase64_def base64ToArrayBuffer_def)
qed

section \<open>Reading back what \<open>JSON.stringify\<close> wrote\<close>

subsection \<open>String literals\<close>

lemma unat_hex_char:
  "d < 16 \<Longrightarrow> unat (hex_char d) = (if d < 10 then d + 48 else d + 87)"
  by (simp add: hex_char_def unat_of_nat del: of_nat_add)

lemma hex_value_unat:
  "hex_value c =
     (if 48 \<le> unat c \<and> unat c \<le> 57 then Some (unat c - 48)
      else if 65 \<le> unat c \<and> unat c \<le> 70 then Some (unat c - 55)
      else if 97 \<le> unat c \<and> unat c \<le> 102 then Some (unat c - 87)
      else None)"
  by (simp add: hex_value_def word_le_nat_alt)

lemma hex_value_char: "d < 16 \<Longrightarrow> hex_value (hex_char d) = Some d"
  by (auto simp: hex_value_unat unat_hex_char)

lemma hex_digits_sum:
  fixes n :: nat
  shows "n div 4096 * 4096 + n div 256 mod 16 * 256 + n div 16 mod 16 * 16 + n mod 16 = n"
proof -
  define x y z w p q where "x = n div 4096" and "y = n div 256 mod 16"
    and "z = n div 16 mod 16" and "w = n mod 16" and "p = n div 256" and "q = n div 16"
  have "p div 16 = x" by (simp add: p_def x_def div_mult2_eq[symmetric])
  then have e1: "p = x * 16 + y" using div_mult_mod_eq[of p 16] by (simp add: y_def p_def)
  have "q div 16 = p" by (simp add: p_def q_def div_mult2_eq[symmetric])
  then have e2: "q = p * 16 + z" using div_mult_mod_eq[of q 16] by (simp add: z_def q_def)
  have e3: "n = q * 16 + w" by (simp add: q_def w_def)
  from e1 e2 e3 have "x * 4096 + y * 256 + z * 16 + w = n" by linarith
  then show ?thesis by (simp add: x_def y_def z_def w_def)
qed

lemma hex4_escape:
  "hex4 (hex_char (unat c div 4096)) (hex_char (unat c div 256 mod 16))
        (hex_char (unat c div 16 mod 16)) (hex_char (unat c mod 16)) = Some c"
proof -
  have "unat c < 2 ^ LENGTH(16)" by (rule unsigned_less)
  then have b: "unat c div 4096 < 16" by simp
  show ?thesis
    using b by (simp add: hex4_def hex_value_char hex_digits_sum)
qed

lemma scan_unicode_escape:
  "scan_string (unicode_escape c @ r) = cons_unit c (scan_string r)"
  by (simp add: unicode_escape_def hex4_escape)

lemma scan_quote_unit:
  "scan_string (quote_unit c @ r) = cons_unit c (scan_string r)"
  by (auto simp: quote_unit_def scan_unicode_escape unescape_def)

lemma surrogate_plain:
  "is_high_surrogate c \<or> is_low_surrogate c \<Longrightarrow> c \<noteq> 0x22 \<and> c \<noteq> 0x5C \<and> \<not> c < 0x20"
  by (auto simp: is_high_surrogate_def is_low_surrogate_def word_le_nat_alt word_less_nat_alt)

lemma scan_quote_body:
  "scan_string (quote_body s @ 0x22 # r) = Some (s, r)"
proof (induction s rule: quote_body.induct)
  case 1
  then show ?case by simp
next
  case (2 c)
  then show ?case by (simp add: scan_unicode_escape scan_quote_unit cons_unit_def)
next
  case (3 c d cs)
  then show ?case
    using surrogate_plain[of c] surrogate_plain[of d]
    by (auto simp: scan_unicode_escape scan_quote_unit cons_unit_def)
qed

lemma lex_quoted:
  "lex (quote_json_string s @ r) = push_token (TStr s) (lex r)"
  by (simp add: quote_json_string_def lex.simps(2) is_json_whitespace_def scan_quote_body)

subsection \<open>Number literals\<close>

lemma digits_of_digit: "list_all (\<lambda>d. d < 10) (digits_of n)"
  by (induction n rule: digits_of.induct) (subst digits_of.simps, simp)

lemma digits_of_not_Nil: "digits_of n \<noteq> []"
  by (subst digits_of.simps) simp

lemma hd_digits_of: "0 < n \<Longrightarrow> hd (digits_of n) \<noteq> 0"
proof (induction n rule: digits_of.induct)
  case (1 n)
  show ?case
  proof (cases "n < 10")
    case True
    with "1.prems" show ?thesis by (subst digits_of.simps) simp
  next
    case False
    then have "0 < n div 10" by simp
    with False "1.IH" have "hd (digits_of (n div 10)) \<noteq> 0" by simp
    with False show ?thesis
      by (subst digits_of.simps) (simp add: digits_of_not_Nil)
  qed
qed

lemma length_digits_of: "0 < k \<Longrightarrow> n < 10 ^ k \<Longrightarrow> length (digits_of n) \<le> k"
proof (induction n arbitrary: k rule: digits_of.induct)
  case (1 n)
  show ?case
  proof (cases "n < 10")
    case True
    with "1.prems" show ?thesis by (subst digits_of.simps) simp
  next
    case False
    with "1.prems" have k: "1 < k" by (cases "k = 1") auto
    then obtain j where j: "k = Suc j" "0 < j" by (cases k) auto
    with "1.prems" have "n div 10 < 10 ^ j" by (simp add: less_mult_imp_div_less mult.commute)
    with "1.IH"[OF False j(2)] have "length (digits_of (n div 10)) \<le> j" by simp
    with False j show ?thesis by (subst digits_of.simps) simp
  qed
qed

lemma length_digits_of_one: "length (digits_of n) = 1 \<longleftrightarrow> n < 10"
  by (subst digits_of.simps) (simp add: digits_of_not_Nil)

lemma takeWhile_eq_replicate:
  "takeWhile (\<lambda>d. d = a) ys = replicate (length (takeWhile (\<lambda>d. d = a) ys)) a"
  by (induction ys) simp_all

lemma strip_trailing_zeros:
  fixes ds :: "nat list"
  shows "rev (dropWhile (\<lambda>d. d = 0) (rev ds)) @
         replicate (length ds - length (rev (dropWhile (\<lambda>d. d = 0) (rev ds)))) 0 = ds"
proof -
  let ?t = "takeWhile (\<lambda>d. d = 0) (rev ds)"
  let ?r = "dropWhile (\<lambda>d. d = 0) (rev ds)"
  have "rev ds = ?t @ ?r" by simp
  then have "ds = rev ?r @ rev ?t" by (metis rev_append rev_rev_ident)
  moreover have "rev ?t = replicate (length ?t) 0"
    by (subst takeWhile_eq_replicate) simp
  moreover have "length (rev ds) = length ?t + length ?r"
    by (metis length_append takeWhile_dropWhile_id)
  then have "length ds - length (rev ?r) = length ?t" by simp
  moreover note this
  ultimately show ?thesis by simp
qed

lemma digit_char_zero: "digit_char 0 = 0x30"
  by (simp add: digit_char_def)

lemma nat_of_digits_snoc: "nat_of_digits (ds @ [d]) = nat_of_digits ds * 10 + d"
  by (simp add: nat_of_digits_def)

lemma nat_of_digits_of: "nat_of_digits (digits_of n) = n"
proof (induction n rule: digits_of.induct)
  case (1 n)
  show ?case
  proof (cases "n < 10")
    case True
    then show ?thesis by (subst digits_of.simps) (simp add: nat_of_digits_def)
  next
    case False
    with "1.IH" have "nat_of_digits (digits_of (n div 10)) = n div 10" by simp
    with False show ?thesis by (subst digits_of.simps) (simp add: nat_of_digits_snoc)
  qed
qed

subsection \<open>Integers as doubles\<close>

lemma strip_twos_zero: "strip_twos 0 e = (0, 0)"
  by (simp add: strip_twos.simps)

lemma strip_twos_double: "0 < m \<Longrightarrow> strip_twos (2 * m) e = strip_twos m (e + 1)"
  by (subst strip_twos.simps) simp

lemma strip_twos_shift: "0 < m \<Longrightarrow> strip_twos (m * 2 ^ j) (e - int j) = strip_twos m e"
proof (induction j arbitrary: e)
  case 0
  then show ?case by simp
next
  case (Suc j)
  have "m * 2 ^ Suc j = 2 * (m * 2 ^ j)" by simp
  moreover from Suc.prems have "0 < m * 2 ^ j" by simp
  ultimately have "strip_twos (m * 2 ^ Suc j) (e - int (Suc j)) =
                   strip_twos (m * 2 ^ j) (e - int (Suc j) + 1)"
    by (simp only: strip_twos_double)
  also have "e - int (Suc j) + 1 = e - int j" by simp
  finally show ?case using Suc.IH[OF Suc.prems] by simp
qed

lemma strip_twos_value:
  "0 < m \<Longrightarrow> strip_twos m e = (m', e') \<Longrightarrow> 0 < m' \<and> e \<le> e' \<and> m = m' * 2 ^ nat (e' - e)"
proof (induction m e arbitrary: m' e' rule: strip_twos.induct)
  case (1 m e)
  show ?case
  proof (cases "even m")
    case True
    with "1.prems" have pos: "0 < m div 2" by (auto elim: evenE)
    from True "1.prems" have "strip_twos (m div 2) (e + 1) = (m', e')"
      by (subst (asm) strip_twos.simps) simp
    with "1.IH" "1.prems"(1) True pos
    have ih: "0 < m' \<and> e + 1 \<le> e' \<and> m div 2 = m' * 2 ^ nat (e' - (e + 1))" by simp
    then have "nat (e' - e) = Suc (nat (e' - (e + 1)))" by linarith
    moreover from True have "m = 2 * (m div 2)" by simp
    ultimately show ?thesis using ih by simp
  next
    case False
    with "1.prems" have "m' = m" "e' = e" by (subst (asm) strip_twos.simps, simp)+
    with "1.prems" show ?thesis by simp
  qed
qed

lemma bit_length_less: "n < 2 ^ bit_length n"
proof (induction n rule: bit_length.induct)
  case (1 n)
  show ?case
  proof (cases "n = 0")
    case True
    then show ?thesis by simp
  next
    case False
    with "1.IH" have "n div 2 < 2 ^ bit_length (n div 2)" by simp
    then have "n < 2 * 2 ^ bit_length (n div 2)" by linarith
    with False show ?thesis by (subst bit_length.simps) simp
  qed
qed

lemma bit_length_ge: "0 < n \<Longrightarrow> 2 ^ (bit_length n - 1) \<le> n"
proof (induction n rule: bit_length.induct)
  case (1 n)
  show ?case
  proof (cases "n div 2 = 0")
    case True
    with "1.prems" show ?thesis by (subst bit_length.simps) (simp add: bit_length.simps[of 0])
  next
    case False
    with "1.IH" "1.prems" have ih: "2 ^ (bit_length (n div 2) - 1) \<le> n div 2" by simp
    from False have "0 < bit_length (n div 2)" by (subst bit_length.simps) simp
    then have "(2::nat) ^ bit_length (n div 2) = 2 * 2 ^ (bit_length (n div 2) - 1)"
      by (cases "bit_length (n div 2)") simp_all
    with ih have "2 ^ bit_length (n div 2) \<le> n" by linarith
    with "1.prems" show ?thesis by (subst bit_length.simps) simp
  qed
qed

lemma bit_length_le: "n < 2 ^ k \<Longrightarrow> bit_length n \<le> k"
proof (induction n arbitrary: k rule: bit_length.induct)
  case (1 n)
  show ?case
  proof (cases "n = 0")
    case True
    then show ?thesis by (simp add: bit_length.simps[of 0])
  next
    case False
    with "1.prems" obtain j where j: "k = Suc j" by (cases k) auto
    with "1.prems" have "n div 2 < 2 ^ j" by simp
    with "1.IH" False have "bit_length (n div 2) \<le> j" by simp
    with False j show ?thesis by (subst bit_length.simps) simp
  qed
qed

lemma bit_length_one: "bit_length (Suc 0) = 1"
proof -
  have "bit_length (Suc 0) = Suc (bit_length 0)" by (subst bit_length.simps) simp
  then show ?thesis by (simp add: bit_length.simps[of 0])
qed

text \<open>An integer below \<open>2 ^ 53\<close> is its own nearest double.\<close>

lemma nearest_double_exact:
  assumes "n < 2 ^ 53"
  shows "nearest_double neg n 1 = finite_number neg n 0"
proof (cases "n = 0")
  case True
  then show ?thesis
    by (simp add: nearest_double_def bit_length_one bit_length.simps[of 0] finite_number_def
        strip_twos_zero)
next
  case False
  define j where "j = 53 - bit_length n"
  from assms have le: "bit_length n \<le> 53" by (rule bit_length_le)
  from False have pos: "0 < bit_length n" by (subst bit_length.simps) simp
  from False have ge: "2 ^ (bit_length n - 1) \<le> n" using bit_length_ge[of n] by simp
  have d: "int (bit_length n) - int (bit_length 1) = int (bit_length n - 1)"
    using pos by (simp add: bit_length_one)
  have e: "max (int (bit_length n - 1) - 52) (- 1074) = - int j"
    using le pos by (simp add: j_def)
  have s: "strip_twos (n * 2 ^ j) (- int j) = strip_twos n 0"
    using strip_twos_shift[of n j 0] False by simp
  show ?thesis
  proof (cases "j = 0")
    case True
    with e ge show ?thesis
      unfolding nearest_double_def d Let_def by (simp add: finite_number_def)
  next
    case nz: False
    with e ge s show ?thesis
      unfolding nearest_double_def d Let_def by (simp add: finite_number_def)
  qed
qed

lemma number_of_nat_zero: "number_of_nat 0 = Finite False 0 0"
  using nearest_double_exact[of 0 False]
  by (simp add: number_of_nat_def finite_number_def strip_twos_zero)

text \<open>An integer below \<open>2 ^ 53\<close> is printed as its decimal digits.\<close>

lemma number_to_string_nat:
  assumes "n < 2 ^ 53"
  shows "number_to_string (number_of_nat n) = nat_to_string n"
proof (cases "n = 0")
  case True
  then show ?thesis
    by (simp add: number_of_nat_zero number_to_string_def nat_to_string_def
        digits_of.simps[of 0] js_def digit_char_def)
next
  case False
  obtain m e where st: "strip_twos n 0 = (m, e)" by (cases "strip_twos n 0") auto
  from False st have v: "0 < m" "0 \<le> e" "n = m * 2 ^ nat e"
    using strip_twos_value[of n 0 m e] by simp_all
  have num: "number_of_nat n = Finite False m e"
    using nearest_double_exact[OF assms, of False]
    by (simp add: number_of_nat_def finite_number_def st)
  from v assms have dec: "decimal_of m e = integer_decimal n"
    by (simp add: decimal_of_def)
  define ds where "ds = digits_of n"
  define ds2 where "ds2 = rev (dropWhile (\<lambda>d. d = 0) (rev ds))"
  from False have hd: "hd ds \<noteq> 0" by (simp add: hd_digits_of ds_def)
  have dne: "ds \<noteq> []" by (simp add: ds_def digits_of_not_Nil)
  have ne: "ds2 \<noteq> []"
  proof
    assume "ds2 = []"
    then have "\<forall>d \<in> set (rev ds). d = 0" by (simp add: ds2_def dropWhile_eq_Nil_conv)
    with dne hd show False by (cases ds) auto
  qed
  have "(2::nat) ^ 53 < 10 ^ 21" by simp
  with assms have "n < 10 ^ 21" by simp
  then have len: "length ds \<le> 21" unfolding ds_def by (intro length_digits_of) simp_all
  have le: "length ds2 \<le> length ds"
    unfolding ds2_def using length_dropWhile_le[of "\<lambda>d. d = 0" "rev ds"] by simp
  have "ds2 @ replicate (length ds - length ds2) 0 = ds"
    unfolding ds2_def by (rule strip_trailing_zeros)
  then have "map digit_char (ds2 @ replicate (length ds - length ds2) 0) = map digit_char ds"
    by simp
  then have "map digit_char ds2 @ replicate (length ds - length ds2) 0x30 = map digit_char ds"
    by (simp add: digit_char_zero)
  moreover have "nat (int (length ds) - int (length ds2)) = length ds - length ds2"
    using le by simp
  ultimately have "format_decimal ds2 (int (length ds)) = nat_to_string n"
    using ne len le by (simp add: format_decimal_def nat_to_string_def Let_def ds_def)
  with v(1) show ?thesis
    by (simp add: num number_to_string_def dec integer_decimal_def ds_def ds2_def)
qed

lemma stringify_nat:
  assumes "n < 2 ^ 53"
  shows "JSON_stringify (JNum (number_of_nat n)) = nat_to_string n"
proof -
  obtain m e where "strip_twos n 0 = (m, e)" by (cases "strip_twos n 0") auto
  then have "number_of_nat n = Finite False m e"
    using nearest_double_exact[OF assms, of False]
    by (simp add: number_of_nat_def finite_number_def)
  then have "JSON_stringify (JNum (number_of_nat n)) = number_to_string (number_of_nat n)"
    by simp
  then show ?thesis by (simp add: number_to_string_nat[OF assms])
qed

lemma digit_value_char: "d < 10 \<Longrightarrow> digit_value (digit_char d) = d"
  by (simp add: digit_value_def digit_char_def unat_of_nat del: of_nat_add)

lemma is_digit_char: "d < 10 \<Longrightarrow> is_digit (digit_char d)"
  by (simp add: is_digit_def digit_char_def word_le_nat_alt unat_of_nat del: of_nat_add)

lemma digit_char_eq_zero: "d < 10 \<Longrightarrow> digit_char d = 0x30 \<longleftrightarrow> d = 0"
  by (simp add: digit_char_def word_unat_eq_iff unat_of_nat del: of_nat_add)

lemma map_digit_value_char:
  "list_all (\<lambda>d. d < 10) ds \<Longrightarrow> map digit_value (map digit_char ds) = ds"
  by (induction ds) (simp_all add: digit_value_char)

lemma takeWhile_digits:
  assumes "list_all (\<lambda>d. d < 10) ds" and "r = [] \<or> \<not> is_digit (hd r)"
  shows "takeWhile is_digit (map digit_char ds @ r) = map digit_char ds"
    and "dropWhile is_digit (map digit_char ds @ r) = r"
  using assms by (induction ds) (auto simp: is_digit_char takeWhile_eq_Nil_iff dropWhile_eq_self_iff)

text \<open>
  The decimal digits of a natural number, followed by something that cannot continue a
  number literal, are read back as that number.
\<close>

lemma scan_number_nat:
  assumes "ends_number r" and "n < 2 ^ 53"
  shows "scan_number (nat_to_string n @ r) = Some (number_of_nat n, r)"
proof -
  define ds where "ds = digits_of n"
  have dig: "list_all (\<lambda>d. d < 10) ds" by (simp add: ds_def digits_of_digit)
  have dne: "ds \<noteq> []" by (simp add: ds_def digits_of_not_Nil)
  from assms have r: "r = [] \<or> \<not> is_digit (hd r)" by (auto simp: ends_number_def)
  from dig dne have h: "is_digit (hd (map digit_char ds @ r))"
    by (cases ds) (auto simp: is_digit_char)
  then have noneg: "hd (map digit_char ds @ r) \<noteq> 0x2D" by (auto simp: is_digit_def)
  have lead: "\<not> (length ds > 1 \<and> hd (map digit_char ds) = 0x30)"
  proof
    assume a: "length ds > 1 \<and> hd (map digit_char ds) = 0x30"
    then have "\<not> n < 10" using length_digits_of_one[of n] by (auto simp: ds_def)
    then have "hd ds \<noteq> 0" by (simp add: ds_def hd_digits_of)
    moreover from dig dne have "hd ds < 10" by (cases ds) auto
    ultimately show False using a dne by (cases ds) (auto simp: digit_char_eq_zero)
  qed
  from assms have f: "scan_frac r = Some ([], r)"
    by (cases r) (auto simp: scan_frac_def ends_number_def)
  from assms have e: "scan_exp r = Some (0, r)"
    by (cases r) (auto simp: scan_exp_def ends_number_def)
  have nn: "literal_number False ds 0 = number_of_nat n"
  proof (cases "n = 0")
    case True
    then show ?thesis
      by (simp add: ds_def digits_of.simps[of 0] literal_number_def number_of_nat_zero)
  next
    case False
    then have "hd ds \<noteq> 0" by (simp add: ds_def hd_digits_of)
    with dne have ds1: "dropWhile (\<lambda>d. d = 0) ds = ds" by (cases ds) auto
    have "(2::nat) ^ 53 < 10 ^ 21" by simp
    with assms(2) have "n < 10 ^ 21" by simp
    then have "length ds \<le> 21" unfolding ds_def by (intro length_digits_of) simp_all
    with dne have "literal_number False ds 0 = decimal_double False (nat_of_digits ds) 0"
      by (simp add: literal_number_def ds1 Let_def)
    also have "nat_of_digits ds = n" by (simp add: ds_def nat_of_digits_of)
    finally show ?thesis by (simp add: decimal_double_def number_of_nat_def)
  qed
  show ?thesis
    unfolding nat_to_string_def ds_def[symmetric] scan_number_def Let_def nn[symmetric]
    using noneg dne lead
    by (simp add: takeWhile_digits[OF dig r] f e map_digit_value_char[OF dig] del: map_map)
qed

lemma lex_nat:
  assumes "ends_number r" and "n < 2 ^ 53"
  shows "lex (nat_to_string n @ r) = push_token (TNum (number_of_nat n)) (lex r)"
proof -
  obtain d ds where ds: "digits_of n = d # ds" using digits_of_not_Nil[of n] by (cases "digits_of n") auto
  have "d < 10" using digits_of_digit[of n] ds by simp
  then have "is_digit (digit_char d)" by (rule is_digit_char)
  then have c: "48 \<le> unat (digit_char d) \<and> unat (digit_char d) \<le> 57"
    by (simp add: is_digit_def word_le_nat_alt)
  have s: "nat_to_string n @ r = digit_char d # (map digit_char ds @ r)"
    by (simp add: nat_to_string_def ds)
  have "lex (digit_char d # (map digit_char ds @ r)) =
        (case scan_number (digit_char d # (map digit_char ds @ r)) of
           None \<Rightarrow> None
         | Some (x, rest) \<Rightarrow> push_token (TNum x) (lex rest))"
    using c by (subst lex.simps(2))
      (auto simp: is_json_whitespace_def starts_with_def js_def word_unat_eq_iff)
  then show ?thesis
    using scan_number_nat[OF assms] by (simp add: s)
qed

subsection \<open>The metadata object\<close>

lemma lex_punctuation:
  "lex (0x7B # r) = push_token TLBrace (lex r)"
  "lex (0x7D # r) = push_token TRBrace (lex r)"
  "lex (0x5B # r) = push_token TLBrack (lex r)"
  "lex (0x5D # r) = push_token TRBrack (lex r)"
  "lex (0x3A # r) = push_token TColon (lex r)"
  "lex (0x2C # r) = push_token TComma (lex r)"
  by (simp_all add: lex.simps(2) is_json_whitespace_def)

lemma ends_number_punctuation: "ends_number (0x2C # r)" "ends_number (0x7D # r)"
  by (simp_all add: ends_number_def is_digit_def)

lemma lex_new_metadata:
  assumes "now < 2 ^ 53"
  shows "lex (JSON_stringify (new_metadata now userId)) =
         Some [TLBrace, TStr (js ''version''), TColon, TStr KEY_VERSION, TComma,
               TStr (js ''createdAt''), TColon, TNum (number_of_nat now), TComma,
               TStr (js ''algorithm''), TColon, TStr (js ''AES-256-GCM''), TComma,
               TStr (js ''userId''), TColon, TStr userId, TRBrace]"
proof -
  have b: "js ''{'' = [0x7B]" "js ''}'' = [0x7D]" "js '':'' = [0x3A]" "js '','' = [0x2C]"
    by (simp_all add: js_def)
  show ?thesis
    by (simp add: new_metadata_def stringify_nat[OF assms] b lex_quoted lex_nat[OF _ assms]
        lex_punctuation ends_number_punctuation push_token_def del: JSON_stringify.simps(3))
qed

lemma parse_new_metadata:
  assumes "now < 2 ^ 53"
  shows "JSON_parse (JSON_stringify (new_metadata now userId)) = Some (new_metadata now userId)"
  unfolding JSON_parse_def lex_new_metadata[OF assms]
  by (simp add: new_metadata_def obj_put_def array_index_def js_def is_digit_def)

lemma slot_names_differ: "KEY_PREFIX @ u \<noteq> METADATA_PREFIX @ v"
  by (simp add: KEY_PREFIX_def METADATA_PREFIX_def js_def)

subsection \<open>The metadata object inside a text, and Latin-1\<close>

lemma lex_new_metadata_append:
  assumes "now < 2 ^ 53"
  shows "lex (JSON_stringify (new_metadata now userId) @ r) =
         map_option ((@) (metadata_tokens now userId)) (lex r)"
proof -
  have b: "js ''{'' = [0x7B]" "js ''}'' = [0x7D]" "js '':'' = [0x3A]" "js '','' = [0x2C]"
    by (simp_all add: js_def)
  show ?thesis
    by (cases "lex r")
      (simp_all add: new_metadata_def stringify_nat[OF assms] b lex_quoted lex_nat[OF _ assms]
        lex_punctuation ends_number_punctuation push_token_def metadata_tokens_def
        del: JSON_stringify.simps(3))
qed

text \<open>The parser takes the tokens of the metadata object as one value.\<close>

lemma prun_metadata_tokens:
  "prun (st, PValue) (metadata_tokens now userId @ ts) =
     (case complete (new_metadata now userId) st of None \<Rightarrow> None | Some p \<Rightarrow> prun p ts)"
  by (simp add: metadata_tokens_def new_metadata_def obj_put_def array_index_def js_def
      is_digit_def KEY_VERSION_def)

lemma btoa_non_latin1: "c \<in> set s \<Longrightarrow> \<not> c \<le> 0xFF \<Longrightarrow> btoa s = None"
  by (auto simp: btoa_def list_all_iff)

lemma latin1_append:
  "list_all (\<lambda>c. c \<le> (0xFF :: code_unit)) (xs @ ys) \<longleftrightarrow>
   list_all (\<lambda>c. c \<le> 0xFF) xs \<and> list_all (\<lambda>c. c \<le> 0xFF) ys"
  by simp

lemma latin1_hex_char: "d < 16 \<Longrightarrow> hex_char d \<le> 0xFF"
  by (simp add: word_le_nat_alt unat_hex_char)

lemma latin1_unicode_escape: "list_all (\<lambda>c. c \<le> 0xFF) (unicode_escape c)"
proof -
  have "unat c < 2 ^ LENGTH(16)" by (rule unsigned_less)
  then have "unat c div 4096 < 16" by simp
  then show ?thesis by (simp add: unicode_escape_def latin1_hex_char)
qed

lemma latin1_quote_unit: "c \<le> 0xFF \<Longrightarrow> list_all (\<lambda>c. c \<le> 0xFF) (quote_unit c)"
  using latin1_unicode_escape[of c] by (simp add: quote_unit_def)

lemma latin1_not_surrogate:
  "c \<le> 0xFF \<Longrightarrow> \<not> is_high_surrogate c \<and> \<not> is_low_surrogate c"
  by (auto simp: is_high_surrogate_def is_low_surrogate_def word_le_nat_alt)

lemma latin1_quote_body:
  "list_all (\<lambda>c. c \<le> 0xFF) s \<Longrightarrow> list_all (\<lambda>c. c \<le> 0xFF) (quote_body s)"
  by (induction s rule: quote_body.induct)
    (simp_all add: latin1_quote_unit latin1_not_surrogate)

lemma latin1_quote_json_string:
  "list_all (\<lambda>c. c \<le> 0xFF) s \<Longrightarrow> list_all (\<lambda>c. c \<le> 0xFF) (quote_json_string s)"
  by (simp add: quote_json_string_def latin1_quote_body)

lemma latin1_nat_to_string: "list_all (\<lambda>c. c \<le> 0xFF) (nat_to_string n)"
proof -
  have "digit_char d \<le> 0xFF" if "d < 10" for d
    using that by (simp add: digit_char_def word_le_nat_alt unat_of_nat del: of_nat_add)
  then show ?thesis
    using digits_of_digit[of n] by (simp add: nat_to_string_def list_all_iff)
qed

lemma latin1_b64_encode: "list_all (\<lambda>c. c \<le> 0xFF) (b64_encode bs)"
proof -
  have "b64_char n \<le> 0xFF" for n
    by (auto simp: b64_char_def word_le_nat_alt unat_of_nat simp del: of_nat_add of_nat_diff)
  then show ?thesis
    by (induction bs rule: b64_encode.induct) simp_all
qed

lemma latin1_keyData: "arrayBufferToBase64 rawKey = Some kd \<Longrightarrow> list_all (\<lambda>c. c \<le> 0xFF) kd"
  using latin1_b64_encode by (auto simp: arrayBufferToBase64_def btoa_def split: if_splits)

section \<open>The cipher opens what it sealed\<close>

lemma length_bytes_of_block: "length (bytes_of_block w) = 16"
  by (simp add: bytes_of_block_def)

lemma length_xor_bytes: "length (xor_bytes xs ys) = min (length xs) (length ys)"
  by (simp add: xor_bytes_def)

lemma xor_bytes_twice: "length xs \<le> length ks \<Longrightarrow> xor_bytes (xor_bytes xs ks) ks = xs"
proof (induction xs arbitrary: ks)
  case Nil
  then show ?case by (simp add: xor_bytes_def)
next
  case (Cons x xs)
  then obtain k ks' where "ks = k # ks'" by (cases ks) auto
  with Cons show ?case by (simp add: xor_bytes_def xor.assoc)
qed

lemma length_gctr: "length (gctr k cb xs) = length xs"
proof (induction k cb xs rule: gctr.induct)
  case (1 k cb xs)
  show ?case
  proof (cases "xs = []")
    case True
    then show ?thesis by (simp add: gctr.simps)
  next
    case False
    with 1 show ?thesis
      by (subst gctr.simps) (simp add: length_xor_bytes length_bytes_of_block)
  qed
qed

text \<open>Counter mode is its own inverse.\<close>

lemma gctr_twice: "gctr k cb (gctr k cb xs) = xs"
proof (induction k cb xs rule: gctr.induct)
  case (1 k cb xs)
  show ?case
  proof (cases "xs = []")
    case True
    then show ?thesis by (simp add: gctr.simps)
  next
    case False
    let ?ks = "bytes_of_block (aes_block k cb)"
    let ?x = "xor_bytes (take 16 xs) ?ks"
    let ?r = "gctr k (inc32 cb) (drop 16 xs)"
    have g: "gctr k cb xs = ?x @ ?r" using False by (subst gctr.simps) simp
    have lx: "length ?x = min (length xs) 16"
      by (simp add: length_xor_bytes length_bytes_of_block)
    have ne: "?x @ ?r \<noteq> []" using False lx by (cases xs) auto
    have tk: "take 16 (?x @ ?r) = ?x"
    proof (cases "length xs \<le> 16")
      case True
      then have "?r = []" by (simp add: gctr.simps)
      with lx True show ?thesis by simp
    next
      case False
      with lx show ?thesis by simp
    qed
    have dr: "drop 16 (?x @ ?r) = ?r"
    proof (cases "length xs \<le> 16")
      case True
      then have "?r = []" by (simp add: gctr.simps)
      with lx True show ?thesis by simp
    next
      case False
      with lx show ?thesis by simp
    qed
    have "gctr k cb (?x @ ?r) = xor_bytes ?x ?ks @ gctr k (inc32 cb) ?r"
      using ne by (subst gctr.simps) (simp only: tk dr if_False)
    also have "xor_bytes ?x ?ks = take 16 xs"
      by (rule xor_bytes_twice) (simp add: length_bytes_of_block)
    also have "gctr k (inc32 cb) ?r = drop 16 xs"
      using False by (rule "1.IH")
    finally show ?thesis by (simp add: g)
  qed
qed

lemma length_gcm_tag: "length (gcm_tag k nonce c) = 16"
  by (simp add: gcm_tag_def Let_def length_bytes_of_block)

lemma length_gcm_crypt: "length (gcm_crypt k nonce xs) = length xs"
  by (simp add: gcm_crypt_def length_gctr)

lemma gcm_crypt_twice: "gcm_crypt k nonce (gcm_crypt k nonce xs) = xs"
  by (simp add: gcm_crypt_def gctr_twice)

text \<open>What \<open>crypto.subtle.encrypt\<close> returns, \<open>crypto.subtle.decrypt\<close> opens with the same key and nonce.\<close>

lemma subtle_encrypt_Some:
  assumes "nonce \<noteq> []" and "length p \<le> 2 ^ 39 - 256"
  shows "subtle_encrypt nonce k p =
           Some (gcm_crypt (raw_key k) nonce p @
                 gcm_tag (raw_key k) nonce (gcm_crypt (raw_key k) nonce p))"
  using assms by (simp add: subtle_encrypt_def Let_def)

lemma subtle_decrypt_encrypt:
  assumes "subtle_encrypt nonce k p = Some ct"
  shows "subtle_decrypt nonce k ct = Some p" and "length ct = length p + 16"
proof -
  let ?c = "gcm_crypt (raw_key k) nonce p"
  let ?t = "gcm_tag (raw_key k) nonce ?c"
  from assms have n: "nonce \<noteq> []" and ct: "ct = ?c @ ?t"
    by (auto simp: subtle_encrypt_def Let_def split: if_splits)
  show len: "length ct = length p + 16"
    by (simp add: ct length_gcm_crypt length_gcm_tag)
  have "length ct - 16 = length ?c" by (simp add: ct length_gcm_tag)
  then have "take (length ct - 16) ct = ?c" "drop (length ct - 16) ct = ?t"
    by (simp_all add: ct)
  then show "subtle_decrypt nonce k ct = Some p"
    using n len by (simp add: subtle_decrypt_def Let_def gcm_crypt_twice)
qed

section \<open>The text codec reads back what it wrote\<close>

lemma surrogate_unat:
  "is_high_surrogate c \<longleftrightarrow> 0xD800 \<le> unat c \<and> unat c \<le> 0xDBFF"
  "is_low_surrogate c \<longleftrightarrow> 0xDC00 \<le> unat c \<and> unat c \<le> 0xDFFF"
  by (simp_all add: is_high_surrogate_def is_low_surrogate_def word_le_nat_alt)

lemma unat_code_unit: "unat (c :: code_unit) < 0x10000"
  using unsigned_less[of c, where 'a = nat] by simp

lemma utf16_decode_scalar: "list_all is_scalar (utf16_decode s)"
proof (induction s rule: utf16_decode.induct)
  case 1
  then show ?case by simp
next
  case (2 c)
  then show ?case using unat_code_unit[of c] by (auto simp: is_scalar_def surrogate_unat)
next
  case (3 c d cs)
  then show ?case
    using unat_code_unit[of c] by (auto simp: is_scalar_def surrogate_unat)
qed

lemma utf16_encode_pair:
  assumes "is_high_surrogate c" and "is_low_surrogate d"
  shows "utf16_encode_scalar (0x10000 + (unat c - 0xD800) * 0x400 + (unat d - 0xDC00)) = [c, d]"
proof -
  define x y where "x = unat c - 0xD800" and "y = unat d - 0xDC00"
  from assms have x: "x < 0x400" "unat c = 0xD800 + x" and y: "y < 0x400" "unat d = 0xDC00 + y"
    by (auto simp: x_def y_def surrogate_unat)
  have "(x * 0x400 + y) div 0x400 = x" "(x * 0x400 + y) mod 0x400 = y"
    using y(1) by simp_all
  then have "utf16_encode_scalar (0x10000 + x * 0x400 + y) =
             [of_nat (unat c), of_nat (unat d)]"
    by (simp add: utf16_encode_scalar_def x(2) y(2) add.assoc del: of_nat_add)
  then show ?thesis by (simp add: x_def y_def)
qed

lemma utf16_encode_unit:
  "utf16_encode_scalar (unat (c :: code_unit)) = [c]"
  using unat_code_unit[of c] by (simp add: utf16_encode_scalar_def)

lemma utf16_roundtrip:
  "is_well_formed s \<Longrightarrow> concat (map utf16_encode_scalar (utf16_decode s)) = s"
proof (induction s rule: utf16_decode.induct)
  case 1
  then show ?case by simp
next
  case (2 c)
  then show ?case by (simp add: utf16_encode_unit)
next
  case (3 c d cs)
  then show ?case
    by (auto simp: utf16_encode_unit utf16_encode_pair simp del: utf16_decode.simps(3) is_well_formed.simps(3)
        simp add: utf16_decode.simps(3)[of c d cs] is_well_formed.simps(3)[of c d cs] split: if_splits)
qed

lemma utf16_decode_no_bom:
  assumes "s = [] \<or> hd s \<noteq> 0xFEFF"
  shows "strip_bom (utf16_decode s) = utf16_decode s"
proof (cases s rule: utf16_decode.cases)
  case 1
  then show ?thesis by (simp add: strip_bom_def)
next
  case (2 c)
  with assms have "unat c \<noteq> 0xFEFF" by (simp add: word_unat_eq_iff)
  with 2 show ?thesis by (simp add: strip_bom_def)
next
  case (3 c d cs)
  with assms have "unat c \<noteq> 0xFEFF" by (simp add: word_unat_eq_iff)
  with 3 show ?thesis by (simp add: strip_bom_def)
qed

lemma unat_byte_of_nat: "n < 256 \<Longrightarrow> unat (of_nat n :: byte) = n"
  by (simp add: unat_of_nat)

lemma lead_mod:
  fixes a :: nat
  shows "a < 32 \<Longrightarrow> (192 + a) mod 32 = a"
    and "a < 16 \<Longrightarrow> (224 + a) mod 16 = a"
    and "a < 8 \<Longrightarrow> (240 + a) mod 8 = a"
    and "a < 64 \<Longrightarrow> (128 + a) mod 64 = a"
  using mod_mult_self3[of 6 32 a] mod_mult_self3[of 14 16 a] mod_mult_self3[of 30 8 a]
    mod_mult_self3[of 2 64 a]
  by simp_all

lemma utf8_decode_1:
  assumes "a < 128"
  shows "utf8_decode utf8_initial (of_nat a # bs) = a # utf8_decode utf8_initial bs"
  using assms
  by (simp add: unat_byte_of_nat utf8_step_def utf8_lead_def utf8_initial_def)

lemma utf8_decode_2:
  assumes "2 \<le> a" and "a < 32" and "b < 64"
  shows "utf8_decode utf8_initial (of_nat (192 + a) # of_nat (128 + b) # bs) =
         (a * 64 + b) # utf8_decode utf8_initial bs"
  using assms
  by (simp add: unat_byte_of_nat utf8_step_def utf8_lead_def utf8_initial_def lead_mod
      del: of_nat_add)

lemma utf8_decode_3:
  assumes "a < 16" and "b < 64" and "c < 64" and "a = 0 \<longrightarrow> 32 \<le> b" and "a = 13 \<longrightarrow> b < 32"
  shows "utf8_decode utf8_initial (of_nat (224 + a) # of_nat (128 + b) # of_nat (128 + c) # bs) =
         ((a * 64 + b) * 64 + c) # utf8_decode utf8_initial bs"
  using assms
  by (auto simp: unat_byte_of_nat utf8_step_def utf8_lead_def utf8_initial_def lead_mod
      simp del: of_nat_add)

lemma utf8_decode_4:
  assumes "a < 5" and "b < 64" and "c < 64" and "d < 64"
    and "a = 0 \<longrightarrow> 16 \<le> b" and "a = 4 \<longrightarrow> b < 16"
  shows "utf8_decode utf8_initial
           (of_nat (240 + a) # of_nat (128 + b) # of_nat (128 + c) # of_nat (128 + d) # bs) =
         (((a * 64 + b) * 64 + c) * 64 + d) # utf8_decode utf8_initial bs"
  using assms
  by (auto simp: unat_byte_of_nat utf8_step_def utf8_lead_def utf8_initial_def lead_mod
      simp del: of_nat_add)

lemma split_64:
  fixes n :: nat
  shows "n div 64 * 64 + n mod 64 = n"
    and "n div 4096 = n div 64 div 64"
    and "n div 262144 = n div 64 div 64 div 64"
  by (simp_all add: div_mult2_eq[symmetric])

text \<open>The decoder reads the encoding of a scalar value as that value.\<close>

lemma utf8_decode_encode_scalar:
  assumes "is_scalar cp"
  shows "utf8_decode utf8_initial (utf8_encode_scalar cp @ bs) = cp # utf8_decode utf8_initial bs"
proof -
  define c where "c = cp mod 64"
  define q1 where "q1 = cp div 64"
  define b where "b = q1 mod 64"
  define q2 where "q2 = q1 div 64"
  define a where "a = q2 mod 64"
  define q3 where "q3 = q2 div 64"
  have c: "c < 64" and b: "b < 64" and a: "a < 64" by (simp_all add: c_def b_def a_def)
  have e1: "cp = q1 * 64 + c" by (simp add: q1_def c_def)
  have e2: "q1 = q2 * 64 + b" by (simp add: q2_def b_def)
  have e3: "q2 = q3 * 64 + a" by (simp add: q3_def a_def)
  have d1: "cp div 64 = q1" "cp mod 64 = c" "q1 mod 64 = b"
    by (simp_all add: q1_def c_def b_def)
  have d2: "cp div 4096 = q2" "q2 mod 64 = a" "cp div 262144 = q3"
    by (simp_all add: split_64 q1_def q2_def q3_def a_def)
  consider "cp < 0x80" | "0x80 \<le> cp" "cp < 0x800" | "0x800 \<le> cp" "cp < 0x10000"
    | "0x10000 \<le> cp"
    by linarith
  then show ?thesis
  proof cases
    case 1
    then show ?thesis
      by (simp add: utf8_encode_scalar_def utf8_decode_1 del: utf8_decode.simps)
  next
    case 2
    with e1 c have "2 \<le> q1" "q1 < 32" by linarith+
    from utf8_decode_2[OF this c, of bs] 2 show ?thesis
      by (simp add: utf8_encode_scalar_def d1 e1[symmetric] del: utf8_decode.simps of_nat_add)
  next
    case 3
    with e1 e2 c b have q: "q2 < 16" "q2 = 0 \<longrightarrow> 32 \<le> b" by linarith+
    from assms 3 have "cp < 0xD800 \<or> 0xDFFF < cp" by (auto simp: is_scalar_def)
    with e1 e2 c b have s: "q2 = 13 \<longrightarrow> b < 32" by linarith
    from utf8_decode_3[OF q(1) b c q(2) s, of bs] 3 show ?thesis
      by (simp add: utf8_encode_scalar_def d1 d2 e1[symmetric] e2[symmetric]
          del: utf8_decode.simps of_nat_add)
  next
    case 4
    from assms have "cp < 0x110000" by (simp add: is_scalar_def)
    with 4 e1 e2 e3 c b a have q: "q3 < 5" "q3 = 0 \<longrightarrow> 16 \<le> a" "q3 = 4 \<longrightarrow> a < 16"
      by linarith+
    from utf8_decode_4[OF q(1) a b c q(2,3), of bs] 4 show ?thesis
      by (simp add: utf8_encode_scalar_def d1 d2 e1[symmetric] e2[symmetric] e3[symmetric]
          del: utf8_decode.simps of_nat_add)
  qed
qed

lemma utf8_roundtrip:
  "list_all is_scalar cps \<Longrightarrow>
   utf8_decode utf8_initial (concat (map utf8_encode_scalar cps)) = cps"
  by (induction cps)
    (simp_all add: utf8_decode_encode_scalar utf8_initial_def[THEN arg_cong, of bytes_needed]
      del: utf8_decode.simps(2))

text \<open>
  What the decoder returns for the bytes of the encoder: the string with each lone
  surrogate replaced and a leading U+FEFF removed.
\<close>

lemma decode_encode:
  "TextDecoder_decode (TextEncoder_encode s) =
     concat (map utf16_encode_scalar (strip_bom (utf16_decode s)))"
  by (simp add: TextDecoder_decode_def TextEncoder_encode_def utf8_roundtrip utf16_decode_scalar)

lemma decode_encode_well_formed:
  assumes "is_well_formed s" and "s = [] \<or> hd s \<noteq> 0xFEFF"
  shows "TextDecoder_decode (TextEncoder_encode s) = s"
  by (simp add: decode_encode utf16_decode_no_bom[OF assms(2)] utf16_roundtrip[OF assms(1)])

lemma length_utf8_encode_scalar: "length (utf8_encode_scalar cp) \<le> 4"
  by (simp add: utf8_encode_scalar_def)

lemma length_utf8_encode_unit: "cp < 0x10000 \<Longrightarrow> length (utf8_encode_scalar cp) \<le> 3"
  by (simp add: utf8_encode_scalar_def)

lemma length_TextEncoder_encode: "length (TextEncoder_encode s) \<le> 3 * length s"
  unfolding TextEncoder_encode_def
proof (induction s rule: utf16_decode.induct)
  case 1
  then show ?case by simp
next
  case (2 c)
  have "length (utf8_encode_scalar 0xFFFD) \<le> 3" by (rule length_utf8_encode_unit) simp
  moreover have "length (utf8_encode_scalar (unat c)) \<le> 3"
    by (rule length_utf8_encode_unit) (rule unat_code_unit)
  ultimately show ?case by simp
next
  case (3 c d cs)
  have a: "length (utf8_encode_scalar 0xFFFD) \<le> 3" by (rule length_utf8_encode_unit) simp
  have b: "length (utf8_encode_scalar (unat c)) \<le> 3"
    by (rule length_utf8_encode_unit) (rule unat_code_unit)
  have c: "length (utf8_encode_scalar (0x10000 + (unat c - 0xD800) * 0x400 + (unat d - 0xDC00))) \<le> 4"
    by (rule length_utf8_encode_scalar)
  show ?case
  proof (cases "is_high_surrogate c \<and> is_low_surrogate d")
    case True
    with 3 c show ?thesis by simp
  next
    case False
    with 3 a b show ?thesis by (cases "is_high_surrogate c \<or> is_low_surrogate c") auto
  qed
qed

section \<open>Evaluation rules\<close>

lemmas lex_eval = js_def lex.simps(2) is_json_whitespace_def starts_with_def scan_number_def
  scan_frac_def scan_exp_def scan_exp_digits_def is_digit_def literal_number_def decimal_double_def
  digit_value_def push_token_def cons_unit_def nat_of_digits_def unescape_def hex4_def
  hex_value_def

lemmas parse_eval = JSON_parse_def obj_put_def array_index_def lex_eval

lemmas base64_eval = atob_def btoa_def strip_padding_def is_ascii_whitespace_def
  b64_index_def b64_char_def base64ToArrayBuffer_def arrayBufferToBase64_def

lemmas storage_eval = getItem_def setItem_def removeItem_def KEY_PREFIX_def
  METADATA_PREFIX_def falsy_item_def

lemma import_example_keyData:
  "importEncryptionKey example_keyData = Inr (CryptoKey example_raw_key)"
  by (simp add: importEncryptionKey_def example_keyData_def example_raw_key_def base64_eval
      js_def subtle_importKey_def upt_rec)

lemma example_storage_slots:
  "getItem example_storage (KEY_PREFIX @ example_user) = Some example_keyData"
  "getItem example_storage (METADATA_PREFIX @ example_user) = Some (js ''{\"userId\":\"u2\"}'')"
  by (simp_all add: example_storage_def storage_eval js_def example_user_def)

lemma unparsable_storage_slots:
  "getItem unparsable_storage (KEY_PREFIX @ example_user) = Some example_keyData"
  "getItem unparsable_storage (METADATA_PREFIX @ example_user) = Some (js ''{oops'')"
  by (simp_all add: unparsable_storage_def storage_eval js_def example_user_def)

lemma empty_slot_storage_slots:
  "getItem empty_slot_storage (KEY_PREFIX @ example_user) = Some example_keyData"
  "getItem empty_slot_storage (METADATA_PREFIX @ example_user) = Some []"
  by (simp_all add: empty_slot_storage_def storage_eval js_def example_user_def)

lemma parse_oops: "JSON_parse (js ''{oops'') = None"
  by (simp add: parse_eval)

lemma parse_empty: "JSON_parse [] = None"
  by (simp add: JSON_parse_def)

section \<open>The key store: reading\<close>

text \<open>
  C9. \<open>getKeyMetadata\<close> returns a value for every user and every storage, never an error;
  the result is \<open>null\<close> when the metadata slot is missing and when its text does not parse;
  and the result depends on the metadata slot alone: two storages that agree on that slot
  give the same result, whatever the key slot and every other slot hold.
\<close>

theorem getKeyMetadata_total:
  "(\<exists>v. getKeyMetadata ls userId = Inr v) \<and>
   (getItem ls (METADATA_PREFIX @ userId) = None \<longrightarrow> getKeyMetadata ls userId = Inr JNull) \<and>
   (\<forall>s. getItem ls (METADATA_PREFIX @ userId) = Some s \<and> JSON_parse s = None \<longrightarrow>
        getKeyMetadata ls userId = Inr JNull) \<and>
   (\<forall>ls'. getItem ls' (METADATA_PREFIX @ userId) = getItem ls (METADATA_PREFIX @ userId) \<longrightarrow>
        getKeyMetadata ls' userId = getKeyMetadata ls userId)"
  by (auto simp: getKeyMetadata_def Let_def falsy_item_def split: option.splits)

theorem getKeyMetadata_total_witness:
  "getItem unparsable_storage (METADATA_PREFIX @ example_user) = Some (js ''{oops'') \<and>
   JSON_parse (js ''{oops'') = None \<and>
   getKeyMetadata unparsable_storage example_user = Inr JNull \<and>
   getItem (deleteKey unparsable_storage example_user) (METADATA_PREFIX @ example_user) = None \<and>
   getKeyMetadata (deleteKey unparsable_storage example_user) example_user = Inr JNull"
proof -
  have a: "getItem unparsable_storage (METADATA_PREFIX @ example_user) = Some (js ''{oops'')"
    by (rule unparsable_storage_slots)
  have b: "getItem (deleteKey unparsable_storage example_user) (METADATA_PREFIX @ example_user)
           = None"
    by (simp add: deleteKey_def getItem_def removeItem_def)
  from getKeyMetadata_total [of unparsable_storage example_user] a parse_oops
  have c: "getKeyMetadata unparsable_storage example_user = Inr JNull"
    by blast
  from getKeyMetadata_total [of "deleteKey unparsable_storage example_user" example_user] b
  have d: "getKeyMetadata (deleteKey unparsable_storage example_user) example_user = Inr JNull"
    by blast
  from a b c d parse_oops show ?thesis by simp
qed

text \<open>
  C8, as the specification states it, fails: a slot that is present and holds the empty
  string is read as absent. Here both slots of \<open>u2\<close> are present, the metadata slot holds
  text that \<open>JSON.parse\<close> refuses, and \<open>getStoredKey\<close> returns \<open>null\<close> instead of throwing.
\<close>

theorem getStoredKey_empty_slot_counterexample:
  "getItem empty_slot_storage (KEY_PREFIX @ example_user) = Some example_keyData \<and>
   getItem empty_slot_storage (METADATA_PREFIX @ example_user) = Some [] \<and>
   JSON_parse [] = None \<and>
   getStoredKey empty_slot_storage example_user = Inr None"
  by (simp add: empty_slot_storage_slots parse_empty getStoredKey_def falsy_item_def)

text \<open>
  C8, amended. \<open>getStoredKey\<close> returns \<open>null\<close> exactly when one of the two slots is missing
  or holds the empty string. When both slots hold a non-empty string and the metadata
  does not parse or the key bytes fail import, it throws 'Failed to retrieve encryption
  key' and does not return \<open>null\<close>.
\<close>

theorem getStoredKey_null_or_error:
  "(getStoredKey ls userId = Inr None \<longleftrightarrow>
      falsy_item (getItem ls (KEY_PREFIX @ userId)) \<or>
      falsy_item (getItem ls (METADATA_PREFIX @ userId))) \<and>
   (\<forall>kd s. getItem ls (KEY_PREFIX @ userId) = Some kd \<and> kd \<noteq> [] \<and>
           getItem ls (METADATA_PREFIX @ userId) = Some s \<and> s \<noteq> [] \<and>
           (JSON_parse s = None \<or> importEncryptionKey kd = Inl ImportKeyFailed) \<longrightarrow>
        getStoredKey ls userId = Inl RetrieveKeyFailed)"
  by (auto simp: getStoredKey_def Let_def falsy_item_def split: option.splits sum.splits)

theorem getStoredKey_null_or_error_witness:
  "getItem unparsable_storage (KEY_PREFIX @ example_user) = Some example_keyData \<and>
   example_keyData \<noteq> [] \<and>
   getItem unparsable_storage (METADATA_PREFIX @ example_user) = Some (js ''{oops'') \<and>
   js ''{oops'' \<noteq> [] \<and>
   JSON_parse (js ''{oops'') = None \<and>
   getStoredKey unparsable_storage example_user = Inl RetrieveKeyFailed \<and>
   getStoredKey unparsable_storage example_user \<noteq> Inr None"
proof -
  have ne: "example_keyData \<noteq> []" "js ''{oops'' \<noteq> []"
    by (simp_all add: example_keyData_def js_def)
  from getStoredKey_null_or_error [of unparsable_storage example_user]
    unparsable_storage_slots ne parse_oops
  have "getStoredKey unparsable_storage example_user = Inl RetrieveKeyFailed"
    by blast
  with unparsable_storage_slots ne parse_oops show ?thesis by simp
qed

section \<open>The key store: restoring a backup\<close>

lemma import_backup_keyData:
  "importEncryptionKey backup_keyData = Inr (CryptoKey backup_raw_key)"
  by (simp add: importEncryptionKey_def backup_keyData_def backup_raw_key_def base64_eval
      js_def subtle_importKey_def upt_rec)

lemma atob_good_backup: "atob good_backup = Some good_backup_text"
  by (simp add: good_backup_def good_backup_text_def base64_eval js_def)

lemma parse_good_backup:
  "JSON_parse good_backup_text =
     Some (JObj [(js ''keyData'', JStr backup_keyData),
                 (js ''metadata'', JObj [(js ''userId'', JStr (js ''old''))])])"
  by (simp add: good_backup_text_def backup_keyData_def parse_eval)

lemma atob_blank_metadata_backup: "atob blank_metadata_backup = Some blank_metadata_backup_text"
  by (simp add: blank_metadata_backup_def blank_metadata_backup_text_def base64_eval js_def)

lemma parse_blank_metadata_backup:
  "JSON_parse blank_metadata_backup_text =
     Some (JObj [(js ''keyData'', JStr backup_keyData), (js ''metadata'', JStr [])])"
  by (simp add: blank_metadata_backup_text_def backup_keyData_def parse_eval)

lemma atob_long_metadata_backup:
  "atob long_metadata_backup = Some long_metadata_backup_text"
  by (simp add: long_metadata_backup_def long_metadata_backup_text_def base64_eval js_def)

lemma parse_long_metadata_backup:
  "JSON_parse long_metadata_backup_text =
     Some (JObj [(js ''keyData'', JStr backup_keyData),
                 (js ''metadata'', JObj [(js ''userId'', JStr (js ''old'')),
                                         (js ''device'', JStr (js ''laptop''))])])"
  by (simp add: long_metadata_backup_text_def backup_keyData_def parse_eval)

lemma atob_no_keyData_backup: "atob no_keyData_backup = Some (js ''{\"metadata\":{}}'')"
  by (simp add: no_keyData_backup_def base64_eval js_def)

lemma parse_no_keyData_backup:
  "JSON_parse (js ''{\"metadata\":{}}'') = Some (JObj [(js ''metadata'', JObj [])])"
  by (simp add: parse_eval)

lemma atob_not_a_bundle: "atob (js ''not-a-valid-bundle'') = None"
  by (simp add: base64_eval js_def)

text \<open>
  C7. When the backup string is not base64, or its decoded text is not JSON, or the parsed
  bundle has no \<open>keyData\<close> or no \<open>metadata\<close> property (or is \<open>null\<close>, which has no
  properties), \<open>importKeyFromBackup\<close> throws 'Failed to import encryption key. The backup
  may be corrupted.' and the whole storage, hence both slots of the user, is as it was.
\<close>

theorem importKeyFromBackup_invalid:
  assumes "atob backupData = None \<or>
           (\<exists>s. atob backupData = Some s \<and>
              (JSON_parse s = None \<or>
               (\<exists>backup. JSON_parse s = Some backup \<and>
                  (get_prop backup (js ''keyData'') \<in> {None, Some None} \<or>
                   get_prop backup (js ''metadata'') \<in> {None, Some None}))))"
  shows "importKeyFromBackup pf ls userId backupData = (Inl ImportBackupFailed, ls)"
  using assms
  by (auto simp: importKeyFromBackup_def split: option.splits)

theorem importKeyFromBackup_invalid_witness:
  "atob (js ''not-a-valid-bundle'') = None \<and>
   importKeyFromBackup roomy_platform example_storage example_user (js ''not-a-valid-bundle'') =
     (Inl ImportBackupFailed, example_storage) \<and>
   getStoredKey example_storage example_user \<noteq> Inr None \<and>
   importKeyFromBackup roomy_platform example_storage example_user no_keyData_backup =
     (Inl ImportBackupFailed, example_storage)"
proof -
  have a: "importKeyFromBackup roomy_platform example_storage example_user
             (js ''not-a-valid-bundle'') = (Inl ImportBackupFailed, example_storage)"
    using importKeyFromBackup_invalid [of "js ''not-a-valid-bundle''"] atob_not_a_bundle
    by blast
  have "get_prop (JObj [(js ''metadata'', JObj [])]) (js ''keyData'') = Some None"
    by (simp add: js_def)
  with atob_no_keyData_backup parse_no_keyData_backup
  have b: "importKeyFromBackup roomy_platform example_storage example_user no_keyData_backup =
             (Inl ImportBackupFailed, example_storage)"
    by (intro importKeyFromBackup_invalid) simp
  have c: "getStoredKey example_storage example_user \<noteq> Inr None"
    by (simp add: getStoredKey_def example_storage_slots falsy_item_def example_keyData_def js_def
        split: option.splits sum.splits)
  from a b c atob_not_a_bundle show ?thesis by simp
qed

text \<open>
  C10, as the specification states it, fails twice. The source asks for more than the
  presence of the \<open>metadata\<close> field: the first bundle below is decodable, its \<open>keyData\<close>
  imports as a valid key and its \<open>metadata\<close> is the empty string; the import throws and the
  storage keeps the old key. And the import can throw after it has written: the second
  bundle passes every check, the storage is at its quota, the new key replaces the old
  one, the longer metadata is refused, and the import throws with the key slot
  overwritten and the metadata slot as it was.
\<close>

theorem importKeyFromBackup_counterexample:
  "atob blank_metadata_backup = Some blank_metadata_backup_text \<and>
   JSON_parse blank_metadata_backup_text =
     Some (JObj [(js ''keyData'', JStr backup_keyData), (js ''metadata'', JStr [])]) \<and>
   importEncryptionKey backup_keyData = Inr (CryptoKey backup_raw_key) \<and>
   importKeyFromBackup roomy_platform example_storage example_user blank_metadata_backup =
     (Inl ImportBackupFailed, example_storage) \<and>
   atob long_metadata_backup = Some long_metadata_backup_text \<and>
   JSON_parse long_metadata_backup_text =
     Some (JObj [(js ''keyData'', JStr backup_keyData),
                 (js ''metadata'', JObj [(js ''userId'', JStr (js ''old'')),
                                         (js ''device'', JStr (js ''laptop''))])]) \<and>
   importKeyFromBackup full_platform example_storage example_user long_metadata_backup =
     (Inl ImportBackupFailed, example_storage(KEY_PREFIX @ example_user \<mapsto> backup_keyData))"
proof -
  have a: "importKeyFromBackup roomy_platform example_storage example_user
             blank_metadata_backup = (Inl ImportBackupFailed, example_storage)"
    by (simp add: atob_blank_metadata_backup parse_blank_metadata_backup import_backup_keyData
        importKeyFromBackup_def js_def)
  have cv: "converts full_platform (JStr backup_keyData)"
    by (simp add: full_platform_def)
  have ne: "backup_keyData \<noteq> []" by (simp add: backup_keyData_def js_def)
  have k: "accepts full_platform example_storage (KEY_PREFIX @ example_user) backup_keyData"
    by (simp add: full_platform_def example_storage_slots example_keyData_def
        backup_keyData_def js_def)
  have m: "\<not> accepts full_platform
               (setItem example_storage (KEY_PREFIX @ example_user) backup_keyData)
               (METADATA_PREFIX @ example_user)
               (JSON_stringify
                  (rewritten_metadata
                     (JObj [(js ''userId'', JStr (js ''old'')),
                            (js ''device'', JStr (js ''laptop''))]) example_user))"
    using example_storage_slots(2) slot_names_differ[of example_user example_user]
    by (simp add: full_platform_def getItem_def setItem_def rewritten_metadata_def obj_put_def
        js_def example_user_def quote_json_string_def quote_unit_def is_high_surrogate_def
        is_low_surrogate_def)
  have b: "importKeyFromBackup full_platform example_storage example_user long_metadata_backup =
             (Inl ImportBackupFailed,
              example_storage(KEY_PREFIX @ example_user \<mapsto> backup_keyData))"
    using k m ne cv
    by (simp add: atob_long_metadata_backup parse_long_metadata_backup import_backup_keyData
        importKeyFromBackup_def try_to_string_def try_setItem_def try_stringify_def js_def
        setItem_def Let_def)
  from a b show ?thesis
    by (simp add: atob_blank_metadata_backup parse_blank_metadata_backup import_backup_keyData
        atob_long_metadata_backup parse_long_metadata_backup)
qed

text \<open>A value whose string imports as a key is truthy.\<close>

lemma importable_is_truthy:
  assumes "js_to_string v = Some kd" and "importEncryptionKey kd = Inr k"
  shows "truthy (Some v)"
proof (cases v)
  case JNull
  with assms show ?thesis
    by (auto simp: importEncryptionKey_def base64_eval js_def subtle_importKey_def)
next
  case (JBool b)
  with assms show ?thesis
    by (cases b) (auto simp: importEncryptionKey_def base64_eval js_def subtle_importKey_def)
next
  case (JNum x)
  show ?thesis
  proof (cases x)
    case (Finite neg m e)
    with JNum assms show ?thesis
      by (cases "m = 0")
        (auto simp: importEncryptionKey_def base64_eval js_def subtle_importKey_def
          number_to_string_def)
  next
    case (Infinite neg)
    with JNum show ?thesis by simp
  qed
next
  case (JStr s)
  with assms show ?thesis
    by (cases "s = []")
      (auto simp: importEncryptionKey_def base64_eval js_def subtle_importKey_def)
qed simp_all

text \<open>
  What \<open>importKeyFromBackup\<close> does with a bundle that passes its checks: it writes the key,
  then the metadata, and stops with its error where the platform refuses.
\<close>

lemma importKeyFromBackup_checked:
  assumes "atob backupData = Some s"
    and "JSON_parse s = Some backup"
    and "get_prop backup (js ''keyData'') = Some (Some kdv)"
    and "get_prop backup (js ''metadata'') = Some (Some mdv)"
    and "converts pf kdv" and "js_to_string kdv = Some kd"
    and "importEncryptionKey kd = Inr k"
    and "truthy (Some mdv)"
  shows "importKeyFromBackup pf ls userId backupData =
           (if \<not> accepts pf ls (KEY_PREFIX @ userId) kd then (Inl ImportBackupFailed, ls)
            else if \<not> serialises pf (rewritten_metadata mdv userId) \<or>
                    \<not> accepts pf (ls(KEY_PREFIX @ userId \<mapsto> kd)) (METADATA_PREFIX @ userId)
                        (JSON_stringify (rewritten_metadata mdv userId))
            then (Inl ImportBackupFailed, ls(KEY_PREFIX @ userId \<mapsto> kd))
            else (Inr \<lparr>key = k, metadata = rewritten_metadata mdv userId\<rparr>,
                  ls(KEY_PREFIX @ userId \<mapsto> kd,
                     METADATA_PREFIX @ userId \<mapsto>
                       JSON_stringify (rewritten_metadata mdv userId))))"
proof -
  from assms(6,7) have "truthy (Some kdv)" by (rule importable_is_truthy)
  with assms show ?thesis
    by (simp add: importKeyFromBackup_def try_to_string_def try_setItem_def try_stringify_def
        setItem_def Let_def)
qed

text \<open>
  C10, amended. When the backup string decodes and parses to a bundle whose \<open>keyData\<close>
  imports as a valid key and whose \<open>metadata\<close> value is truthy (not \<open>null\<close>, \<open>false\<close>, zero
  or the empty string), and the platform converts the \<open>keyData\<close>, serialises the metadata
  and accepts the two writes, \<open>importKeyFromBackup\<close> returns the record, whatever the storage held for the user
  before: the key slot now holds the backup's key text, the metadata slot the text of the
  metadata with \<open>userId\<close> rewritten, and no other slot changes.
\<close>

theorem importKeyFromBackup_overwrites:
  assumes "atob backupData = Some s"
    and "JSON_parse s = Some backup"
    and "get_prop backup (js ''keyData'') = Some (Some kdv)"
    and "get_prop backup (js ''metadata'') = Some (Some mdv)"
    and "converts pf kdv" and "js_to_string kdv = Some kd"
    and "importEncryptionKey kd = Inr k"
    and "truthy (Some mdv)"
    and "accepts pf ls (KEY_PREFIX @ userId) kd"
    and "serialises pf (rewritten_metadata mdv userId)"
    and "accepts pf (ls(KEY_PREFIX @ userId \<mapsto> kd)) (METADATA_PREFIX @ userId)
           (JSON_stringify (rewritten_metadata mdv userId))"
  shows "importKeyFromBackup pf ls userId backupData =
           (Inr \<lparr>key = k, metadata = rewritten_metadata mdv userId\<rparr>,
            ls(KEY_PREFIX @ userId \<mapsto> kd,
               METADATA_PREFIX @ userId \<mapsto> JSON_stringify (rewritten_metadata mdv userId)))"
  using importKeyFromBackup_checked [OF assms(1-8), of ls userId] assms(9-11) by simp

theorem importKeyFromBackup_overwrites_witness:
  "atob good_backup = Some good_backup_text \<and>
   hasStoredKey example_storage example_user \<and>
   importKeyFromBackup roomy_platform example_storage example_user good_backup =
     (Inr \<lparr>key = CryptoKey backup_raw_key,
           metadata = rewritten_metadata (JObj [(js ''userId'', JStr (js ''old''))]) example_user\<rparr>,
      example_storage
        (KEY_PREFIX @ example_user \<mapsto> backup_keyData,
         METADATA_PREFIX @ example_user \<mapsto>
           JSON_stringify
             (rewritten_metadata (JObj [(js ''userId'', JStr (js ''old''))]) example_user)))"
proof -
  have p1: "get_prop (JObj [(js ''keyData'', JStr backup_keyData),
                 (js ''metadata'', JObj [(js ''userId'', JStr (js ''old''))])]) (js ''keyData'')
            = Some (Some (JStr backup_keyData))"
    by (simp add: js_def)
  have p2: "get_prop (JObj [(js ''keyData'', JStr backup_keyData),
                 (js ''metadata'', JObj [(js ''userId'', JStr (js ''old''))])]) (js ''metadata'')
            = Some (Some (JObj [(js ''userId'', JStr (js ''old''))]))"
    by (simp add: js_def)
  have h: "hasStoredKey example_storage example_user"
    by (simp add: hasStoredKey_def example_storage_slots)
  from importKeyFromBackup_overwrites [OF atob_good_backup parse_good_backup p1 p2 _ _
      import_backup_keyData, of roomy_platform example_storage example_user] h atob_good_backup
  show ?thesis by (simp add: roomy_platform_def)
qed

section \<open>The key store: creating\<close>

lemma importEncryptionKey_generated:
  assumes "length rawKey = 32"
  shows "\<exists>kd. arrayBufferToBase64 rawKey = Some kd \<and> kd \<noteq> [] \<and>
              importEncryptionKey kd = Inr (CryptoKey rawKey)"
proof -
  from base64_roundtrip[of rawKey] obtain kd where
    kd: "arrayBufferToBase64 rawKey = Some kd" "base64ToArrayBuffer kd = Some rawKey"
    by blast
  have "base64ToArrayBuffer [] = Some []"
    by (simp add: base64ToArrayBuffer_def atob_def strip_padding_def)
  with kd(2) assms have "kd \<noteq> []" by auto
  with kd assms show ?thesis
    by (auto simp: importEncryptionKey_def subtle_importKey_def)
qed

lemma stringify_new_metadata_not_empty:
  "JSON_stringify (new_metadata now userId) \<noteq> []"
  by (simp add: new_metadata_def js_def)

text \<open>What \<open>generateAndStoreKey\<close> returns and writes.\<close>

lemma generateAndStoreKey_result:
  "\<exists>kd. arrayBufferToBase64 rawKey = Some kd \<and>
        generateAndStoreKey rawKey now ls userId =
          (Inr \<lparr>key = CryptoKey rawKey, metadata = new_metadata now userId\<rparr>,
           ls(KEY_PREFIX @ userId \<mapsto> kd,
              METADATA_PREFIX @ userId \<mapsto> JSON_stringify (new_metadata now userId)))"
proof -
  from base64_roundtrip[of rawKey] obtain kd where "arrayBufferToBase64 rawKey = Some kd"
    by blast
  then show ?thesis
    by (simp add: generateAndStoreKey_def generateEncryptionKey_def setItem_def Let_def)
qed

text \<open>A key record that \<open>generateAndStoreKey\<close> wrote is read back as it was returned.\<close>

lemma getStoredKey_generated:
  assumes "length rawKey = 32" and "now < 2 ^ 53"
    and "generateAndStoreKey rawKey now ls userId = (r, ls1)"
  shows "r = Inr \<lparr>key = CryptoKey rawKey, metadata = new_metadata now userId\<rparr>"
    and "getStoredKey ls1 userId =
           Inr (Some \<lparr>key = CryptoKey rawKey, metadata = new_metadata now userId\<rparr>)"
    and "hasStoredKey ls1 userId"
proof -
  from importEncryptionKey_generated[OF assms(1)] obtain kd where
    kd: "arrayBufferToBase64 rawKey = Some kd" "kd \<noteq> []"
      "importEncryptionKey kd = Inr (CryptoKey rawKey)"
    by blast
  from generateAndStoreKey_result[of rawKey now ls userId] kd(1) assms(3)
  have r: "r = Inr \<lparr>key = CryptoKey rawKey, metadata = new_metadata now userId\<rparr>"
    and ls1: "ls1 = ls(KEY_PREFIX @ userId \<mapsto> kd,
                 METADATA_PREFIX @ userId \<mapsto> JSON_stringify (new_metadata now userId))"
    by auto
  show "r = Inr \<lparr>key = CryptoKey rawKey, metadata = new_metadata now userId\<rparr>" by (rule r)
  show "getStoredKey ls1 userId =
           Inr (Some \<lparr>key = CryptoKey rawKey, metadata = new_metadata now userId\<rparr>)"
    using kd(2,3) slot_names_differ[of userId userId]
    by (simp add: getStoredKey_def ls1 getItem_def falsy_item_def
        stringify_new_metadata_not_empty parse_new_metadata[OF assms(2)])
  show "hasStoredKey ls1 userId"
    using slot_names_differ[of userId userId] by (simp add: hasStoredKey_def ls1 getItem_def)
qed




section \<open>The key store: backup\<close>

lemma exportKeyForBackup_generated:
  assumes "length rawKey = 32" and "now < 2 ^ 53"
    and "arrayBufferToBase64 rawKey = Some kd"
    and "generateAndStoreKey rawKey now ls userId = (r, ls1)"
  shows "exportKeyForBackup now' ls1 userId =
           (case btoa (JSON_stringify (bundle_of kd now userId now')) of
              None \<Rightarrow> Inl ExportKeyFailed
            | Some b \<Rightarrow> Inr b)"
proof -
  from importEncryptionKey_generated[OF assms(1)] assms(3) have kd: "kd \<noteq> []" by auto
  from generateAndStoreKey_result[of rawKey now ls userId] assms(3,4)
  have ls1: "ls1 = ls(KEY_PREFIX @ userId \<mapsto> kd,
                 METADATA_PREFIX @ userId \<mapsto> JSON_stringify (new_metadata now userId))"
    by auto
  have v: "get_prop (new_metadata now userId) (js ''version'') = Some (Some (JStr KEY_VERSION))"
    by (simp add: new_metadata_def js_def)
  show ?thesis
    using kd slot_names_differ[of userId userId]
    by (simp add: exportKeyForBackup_def ls1 getItem_def falsy_item_def
        stringify_new_metadata_not_empty parse_new_metadata[OF assms(2)] v bundle_of_def)
qed

lemma stringify_bundle:
  "JSON_stringify (bundle_of kd now userId now') =
     js ''{'' @ quote_json_string (js ''version'') @ js '':'' @ quote_json_string KEY_VERSION @
     js '','' @ quote_json_string (js ''keyData'') @ js '':'' @ quote_json_string kd @
     js '','' @ quote_json_string (js ''metadata'') @ js '':'' @
       JSON_stringify (new_metadata now userId) @
     js '','' @ quote_json_string (js ''exportedAt'') @ js '':'' @
       JSON_stringify (JNum (number_of_nat now')) @ js ''}''"
  by (simp add: bundle_of_def backup_bundle_def del: JSON_stringify.simps(3))

lemma latin1_stringify_bundle:
  assumes "list_all (\<lambda>c. c \<le> 0xFF) userId" and "list_all (\<lambda>c. c \<le> 0xFF) kd"
    and "now < 2 ^ 53" and "now' < 2 ^ 53"
  shows "list_all (\<lambda>c. c \<le> 0xFF) (JSON_stringify (bundle_of kd now userId now'))"
proof -
  have k: "list_all (\<lambda>c. c \<le> 0xFF) (js ''version'')" "list_all (\<lambda>c. c \<le> 0xFF) KEY_VERSION"
    "list_all (\<lambda>c. c \<le> 0xFF) (js ''keyData'')" "list_all (\<lambda>c. c \<le> 0xFF) (js ''metadata'')"
    "list_all (\<lambda>c. c \<le> 0xFF) (js ''exportedAt'')" "list_all (\<lambda>c. c \<le> 0xFF) (js ''createdAt'')"
    "list_all (\<lambda>c. c \<le> 0xFF) (js ''algorithm'')" "list_all (\<lambda>c. c \<le> 0xFF) (js ''AES-256-GCM'')"
    "list_all (\<lambda>c. c \<le> 0xFF) (js ''userId'')"
    by (simp_all add: js_def KEY_VERSION_def)
  have p: "list_all (\<lambda>c. c \<le> 0xFF) (js ''{'')" "list_all (\<lambda>c. c \<le> 0xFF) (js ''}'')"
    "list_all (\<lambda>c. c \<le> 0xFF) (js '':'')" "list_all (\<lambda>c. c \<le> 0xFF) (js '','')"
    by (simp_all add: js_def)
  have m: "list_all (\<lambda>c. c \<le> 0xFF) (JSON_stringify (new_metadata now userId))"
    using assms(1) k p
    by (simp add: new_metadata_def stringify_nat[OF assms(3)] latin1_quote_json_string
        latin1_nat_to_string del: JSON_stringify.simps(3))
  show ?thesis
    unfolding stringify_bundle
    using assms(2) k p m
    by (simp add: stringify_nat[OF assms(4)] latin1_quote_json_string latin1_nat_to_string
        del: JSON_stringify.simps(3))
qed

lemma parse_bundle:
  assumes "now < 2 ^ 53" and "now' < 2 ^ 53"
  shows "JSON_parse (JSON_stringify (bundle_of kd now userId now')) =
           Some (bundle_of kd now userId now')"
proof -
  have b: "js ''{'' = [0x7B]" "js ''}'' = [0x7D]" "js '':'' = [0x3A]" "js '','' = [0x2C]"
    by (simp_all add: js_def)
  have l: "lex (JSON_stringify (bundle_of kd now userId now')) =
           Some ([TLBrace, TStr (js ''version''), TColon, TStr KEY_VERSION, TComma,
                  TStr (js ''keyData''), TColon, TStr kd, TComma,
                  TStr (js ''metadata''), TColon] @
                 metadata_tokens now userId @
                 [TComma, TStr (js ''exportedAt''), TColon, TNum (number_of_nat now'), TRBrace])"
    unfolding stringify_bundle
    by (simp add: b lex_quoted lex_punctuation lex_new_metadata_append[OF assms(1)]
        stringify_nat[OF assms(2)] lex_nat[OF _ assms(2)] ends_number_punctuation push_token_def
        del: JSON_stringify.simps(3))
  show ?thesis
    unfolding JSON_parse_def l
    by (simp add: prun_metadata_tokens bundle_of_def backup_bundle_def obj_put_def
        array_index_def js_def is_digit_def)
qed

lemma rewritten_new_metadata:
  "rewritten_metadata (new_metadata now userId) userId' = new_metadata now userId'"
  by (simp add: rewritten_metadata_def new_metadata_def obj_put_def js_def)

text \<open>
  Backup and restore, for a user id within Latin-1 (every code unit at most 0xFF): the
  export of a record that \<open>generateAndStoreKey\<close> wrote succeeds, and importing the exported
  string, into any storage and under any user id, on a platform that converts the key
  text, serialises the metadata and accepts the two writes, returns the same key and the metadata with the user
  id of the import.
\<close>

lemma backup_restore:
  assumes "length rawKey = 32" and "now < 2 ^ 53" and "now' < 2 ^ 53"
    and "list_all (\<lambda>c. c \<le> 0xFF) userId"
    and "generateAndStoreKey rawKey now ls userId = (r, ls1)"
  shows "\<exists>b kd. exportKeyForBackup now' ls1 userId = Inr b \<and>
             arrayBufferToBase64 rawKey = Some kd \<and>
             (\<forall>pf ls2 userId2.
                converts pf (JStr kd) \<longrightarrow>
                accepts pf ls2 (KEY_PREFIX @ userId2) kd \<longrightarrow>
                serialises pf (new_metadata now userId2) \<longrightarrow>
                accepts pf (ls2(KEY_PREFIX @ userId2 \<mapsto> kd)) (METADATA_PREFIX @ userId2)
                  (JSON_stringify (new_metadata now userId2)) \<longrightarrow>
                fst (importKeyFromBackup pf ls2 userId2 b) =
                  Inr \<lparr>key = CryptoKey rawKey, metadata = new_metadata now userId2\<rparr>)"
proof -
  note n = assms(2,3)
  from importEncryptionKey_generated[OF assms(1)] obtain kd where
    kd: "arrayBufferToBase64 rawKey = Some kd" "kd \<noteq> []"
      "importEncryptionKey kd = Inr (CryptoKey rawKey)"
    by blast
  let ?b0 = "bundle_of kd now userId now'"
  let ?s = "JSON_stringify ?b0"
  have "list_all (\<lambda>c. c \<le> 0xFF) ?s"
    using assms(4) latin1_keyData[OF kd(1)] n by (rule latin1_stringify_bundle)
  from atob_btoa[OF this] obtain b where b: "btoa ?s = Some b" "atob b = Some ?s" by blast
  have ex: "exportKeyForBackup now' ls1 userId = Inr b"
    using exportKeyForBackup_generated[OF assms(1) n(1) kd(1) assms(5), of now'] b(1) by simp
  have g1: "get_prop ?b0 (js ''keyData'') = Some (Some (JStr kd))"
    and g2: "get_prop ?b0 (js ''metadata'') = Some (Some (new_metadata now userId))"
    by (simp_all add: bundle_of_def backup_bundle_def js_def)
  have t: "truthy (Some (new_metadata now userId))"
    by (simp add: new_metadata_def)
  have "fst (importKeyFromBackup pf ls2 userId2 b) =
          Inr \<lparr>key = CryptoKey rawKey, metadata = new_metadata now userId2\<rparr>"
    if "converts pf (JStr kd)"
      and "accepts pf ls2 (KEY_PREFIX @ userId2) kd"
      and "serialises pf (new_metadata now userId2)"
      and "accepts pf (ls2(KEY_PREFIX @ userId2 \<mapsto> kd)) (METADATA_PREFIX @ userId2)
             (JSON_stringify (new_metadata now userId2))"
    for pf ls2 userId2
    using importKeyFromBackup_checked[OF b(2) parse_bundle[OF n] g1 g2 that(1) _ kd(3) t,
        of ls2 userId2] that(2-4)
    by (simp add: rewritten_new_metadata)
  with ex kd(1) show ?thesis by blast
qed

text \<open>
  C5 fails on the code for a user id with a character above U+00FF, here the one
  character U+03A9: the key is stored and read back, and \<open>exportKeyForBackup\<close> throws,
  because \<open>btoa\<close> refuses the text of the bundle, in which the user id stands as it is.
\<close>

theorem export_fails_outside_latin1:
  "hasStoredKey omega_storage omega_user \<and>
   getStoredKey omega_storage omega_user =
     Inr (Some \<lparr>key = CryptoKey example_raw_key,
                 metadata = new_metadata 1700000000000 omega_user\<rparr>) \<and>
   exportKeyForBackup 1700000000001 omega_storage omega_user = Inl ExportKeyFailed"
proof -
  have l: "length example_raw_key = 32" by (simp add: example_raw_key_def)
  have n: "(1700000000000 :: nat) < 2 ^ 53" by simp
  obtain r where g:
    "generateAndStoreKey example_raw_key 1700000000000 Map.empty omega_user = (r, omega_storage)"
    by (cases "generateAndStoreKey example_raw_key 1700000000000 Map.empty omega_user")
      (simp add: omega_storage_def)
  note gen = getStoredKey_generated[OF l n g]
  from base64_roundtrip[of example_raw_key] obtain kd where
    kd: "arrayBufferToBase64 example_raw_key = Some kd" by blast
  have "0x3A9 \<in> set (JSON_stringify (bundle_of kd 1700000000000 omega_user 1700000000001))"
    unfolding stringify_bundle
    by (simp add: new_metadata_def omega_user_def quote_json_string_def quote_unit_def
        is_high_surrogate_def is_low_surrogate_def)
  then have "btoa (JSON_stringify (bundle_of kd 1700000000000 omega_user 1700000000001)) = None"
    by (rule btoa_non_latin1) simp
  with exportKeyForBackup_generated[OF l n kd g, of 1700000000001]
  have "exportKeyForBackup 1700000000001 omega_storage omega_user = Inl ExportKeyFailed"
    by simp
  with gen(2,3) show ?thesis by simp
qed

section \<open>Files\<close>

lemma normalize_type_examples:
  "normalize_type (js ''image/jpeg'') = js ''image/jpeg''"
  "normalize_type (js ''text/plain'') = js ''text/plain''"
  "normalize_type (js ''Image/PNG'') = js ''image/png''"
  "normalize_type (js ''image/'' @ [0xE9]) = []"
  by (simp_all add: normalize_type_def ascii_lowercase_def js_def)

text \<open>
  C2. For a key of 256 bits, the 12 nonce bytes of the platform and a buffer within the
  size limit of the cipher (at most \<open>2^39 - 256\<close> bytes, the empty buffer included),
  \<open>encryptFile\<close> returns a blob that is 16 bytes longer than the buffer, and \<open>decryptFile\<close> of
  that blob with the returned \<open>iv\<close> and the same key returns a blob with exactly the bytes
  of the buffer; its type is the MIME type that the caller names, as the \<open>Blob\<close>
  constructor keeps it.
\<close>

theorem encryptFile_decryptFile:
  assumes "length (raw_key k) = 32" and "length rnd = 12"
    and "length (blob_bytes file) \<le> 2 ^ 39 - 256"
  shows "\<exists>e. encryptFile rnd file k = Inr e \<and>
             length (blob_bytes (encryptedBlob e)) = length (blob_bytes file) + 16 \<and>
             (\<forall>originalType.
                decryptFile (encryptedBlob e) (file_iv e) k originalType =
                  Inr \<lparr>blob_bytes = blob_bytes file,
                       blob_type = normalize_type originalType\<rparr>)"
proof -
  from assms(2) have n: "rnd \<noteq> []" by auto
  from subtle_encrypt_Some[OF n assms(3)] obtain ct where
    ct: "subtle_encrypt rnd k (blob_bytes file) = Some ct" by blast
  from base64_roundtrip[of rnd] obtain i where
    i: "arrayBufferToBase64 rnd = Some i" "base64ToArrayBuffer i = Some rnd" by blast
  let ?e = "\<lparr>encryptedBlob = new_Blob ct (js ''application/octet-stream''),
             file_iv = i, file_algorithm = ALGORITHM_TAG\<rparr>"
  have "encryptFile rnd file k = Inr ?e"
    by (simp add: encryptFile_def ct i)
  moreover have "length (blob_bytes (encryptedBlob ?e)) = length (blob_bytes file) + 16"
    using subtle_decrypt_encrypt(2)[OF ct] by (simp add: new_Blob_def)
  moreover have "\<forall>originalType.
      decryptFile (encryptedBlob ?e) (file_iv ?e) k originalType =
        Inr \<lparr>blob_bytes = blob_bytes file, blob_type = normalize_type originalType\<rparr>"
    using subtle_decrypt_encrypt(1)[OF ct] by (simp add: decryptFile_def i new_Blob_def)
  ultimately show ?thesis by blast
qed

theorem encryptFile_decryptFile_witness:
  "length (raw_key example_key) = 32 \<and> length example_nonce = 12 \<and>
   length (blob_bytes jpeg_header) \<le> 2 ^ 39 - 256 \<and>
   length (blob_bytes empty_file) \<le> 2 ^ 39 - 256 \<and>
   (\<exists>e. encryptFile example_nonce jpeg_header example_key = Inr e \<and>
        length (blob_bytes (encryptedBlob e)) = 8 + 16 \<and>
        decryptFile (encryptedBlob e) (file_iv e) example_key (js ''image/jpeg'') =
          Inr jpeg_header \<and>
        decryptFile (encryptedBlob e) (file_iv e) example_key (js ''Image/PNG'') =
          Inr \<lparr>blob_bytes = blob_bytes jpeg_header, blob_type = js ''image/png''\<rparr>) \<and>
   (\<exists>e. encryptFile example_nonce empty_file example_key = Inr e \<and>
        length (blob_bytes (encryptedBlob e)) = 0 + 16 \<and>
        decryptFile (encryptedBlob e) (file_iv e) example_key (js ''text/plain'') =
          Inr empty_file)"
proof -
  have k: "length (raw_key example_key) = 32"
    by (simp add: example_key_def example_raw_key_def)
  have n: "length example_nonce = 12"
    by (simp add: example_nonce_def)
  have a: "length (blob_bytes jpeg_header) \<le> 2 ^ 39 - 256"
    by (simp add: jpeg_header_def)
  have b: "length (blob_bytes empty_file) \<le> 2 ^ 39 - 256"
    by (simp add: empty_file_def)
  have la: "length (blob_bytes jpeg_header) = 8"
    and ta: "jpeg_header = \<lparr>blob_bytes = blob_bytes jpeg_header, blob_type = js ''image/jpeg''\<rparr>"
    by (simp_all add: jpeg_header_def)
  have lb: "length (blob_bytes empty_file) = 0"
    and tb: "empty_file = \<lparr>blob_bytes = blob_bytes empty_file, blob_type = js ''text/plain''\<rparr>"
    by (simp_all add: empty_file_def)
  from encryptFile_decryptFile [OF k n a] obtain e where e:
    "encryptFile example_nonce jpeg_header example_key = Inr e"
    "length (blob_bytes (encryptedBlob e)) = length (blob_bytes jpeg_header) + 16"
    "\<And>t. decryptFile (encryptedBlob e) (file_iv e) example_key t =
       Inr \<lparr>blob_bytes = blob_bytes jpeg_header, blob_type = normalize_type t\<rparr>"
    by blast
  have c: "\<exists>e. encryptFile example_nonce jpeg_header example_key = Inr e \<and>
        length (blob_bytes (encryptedBlob e)) = 8 + 16 \<and>
        decryptFile (encryptedBlob e) (file_iv e) example_key (js ''image/jpeg'') =
          Inr jpeg_header \<and>
        decryptFile (encryptedBlob e) (file_iv e) example_key (js ''Image/PNG'') =
          Inr \<lparr>blob_bytes = blob_bytes jpeg_header, blob_type = js ''image/png''\<rparr>"
    using e(1,2) la ta by (intro exI[of _ e]) (simp add: e(3) normalize_type_examples)
  from encryptFile_decryptFile [OF k n b] obtain e' where e':
    "encryptFile example_nonce empty_file example_key = Inr e'"
    "length (blob_bytes (encryptedBlob e')) = length (blob_bytes empty_file) + 16"
    "\<And>t. decryptFile (encryptedBlob e') (file_iv e') example_key t =
       Inr \<lparr>blob_bytes = blob_bytes empty_file, blob_type = normalize_type t\<rparr>"
    by blast
  have d: "\<exists>e. encryptFile example_nonce empty_file example_key = Inr e \<and>
        length (blob_bytes (encryptedBlob e)) = 0 + 16 \<and>
        decryptFile (encryptedBlob e) (file_iv e) example_key (js ''text/plain'') =
          Inr empty_file"
    using e'(1,2) lb tb by (intro exI[of _ e']) (simp add: e'(3) normalize_type_examples)
  from k n a b c d show ?thesis by blast
qed

section \<open>Text\<close>

text \<open>
  What \<open>decryptText\<close> returns for a payload of \<open>encryptText\<close> under the same key: the text
  as the codec reads it back. A JavaScript string has fewer than \<open>2^30\<close> code units in
  every engine, which keeps its UTF-8 bytes within the size limit of the cipher.
\<close>

lemma encrypt_then_decrypt_codec:
  assumes "rnd \<noteq> []" and "length text \<le> 2 ^ 30"
  shows "encrypt_then_decrypt rnd text k k = Inr (TextDecoder_decode (TextEncoder_encode text))"
proof -
  have "3 * length text \<le> 3 * 2 ^ 30" using assms(2) by simp
  also have "(3::nat) * 2 ^ 30 \<le> 2 ^ 39 - 256" by simp
  finally have len: "length (TextEncoder_encode text) \<le> 2 ^ 39 - 256"
    using length_TextEncoder_encode[of "text"] by simp
  from subtle_encrypt_Some[OF assms(1) len] obtain ct where
    ct: "subtle_encrypt rnd k (TextEncoder_encode text) = Some ct" by blast
  from base64_roundtrip[of ct] obtain c where
    c: "arrayBufferToBase64 ct = Some c" "base64ToArrayBuffer c = Some ct" by blast
  from base64_roundtrip[of rnd] obtain i where
    i: "arrayBufferToBase64 rnd = Some i" "base64ToArrayBuffer i = Some rnd" by blast
  show ?thesis
    by (simp add: encrypt_then_decrypt_def encryptText_def decryptText_def ct c i
        subtle_decrypt_encrypt(1)[OF ct])
qed

lemma encryptText_decryptText_helper:
  assumes "length rnd = 12"
    and "is_well_formed s" and "s = [] \<or> hd s \<noteq> 0xFEFF" and "length s \<le> 2 ^ 30"
  shows "encrypt_then_decrypt rnd s k k = Inr s"
proof -
  from assms(1) have "rnd \<noteq> []" by auto
  then show ?thesis
    using assms(4) decode_encode_well_formed[OF assms(2,3)]
    by (simp add: encrypt_then_decrypt_codec)
qed

text \<open>
  C1, as the specification states it, fails for a string with a surrogate outside a pair:
  the encoder writes U+FFFD for it, and the text that comes back is not the text that
  went in.
\<close>

theorem lone_surrogate_counterexample:
  "encrypt_then_decrypt example_nonce [0xD800] example_key example_key = Inr [0xFFFD]"
proof -
  have "example_nonce \<noteq> []" by (simp add: example_nonce_def)
  then have "encrypt_then_decrypt example_nonce [0xD800] example_key example_key =
             Inr (TextDecoder_decode (TextEncoder_encode [0xD800]))"
    by (rule encrypt_then_decrypt_codec) simp
  also have "TextDecoder_decode (TextEncoder_encode [0xD800]) = [0xFFFD]"
    by (simp add: decode_encode is_high_surrogate_def strip_bom_def utf16_encode_scalar_def)
  finally show ?thesis .
qed

text \<open>A leading U+FEFF does not come back either: the decoder removes it as a byte order mark.\<close>

lemma leading_bom_is_dropped:
  "encrypt_then_decrypt example_nonce (0xFEFF # js ''hi'') example_key example_key = Inr (js ''hi'')"
proof -
  have "example_nonce \<noteq> []" by (simp add: example_nonce_def)
  then have "encrypt_then_decrypt example_nonce (0xFEFF # js ''hi'') example_key example_key =
             Inr (TextDecoder_decode (TextEncoder_encode (0xFEFF # js ''hi'')))"
    by (rule encrypt_then_decrypt_codec) (simp add: js_def)
  also have "TextDecoder_decode (TextEncoder_encode (0xFEFF # js ''hi'')) = js ''hi''"
    by (simp add: decode_encode js_def is_high_surrogate_def is_low_surrogate_def strip_bom_def
        utf16_encode_scalar_def)
  finally show ?thesis .
qed

text \<open>
  C1, amended. For a key of 256 bits, the 12 nonce bytes of the platform and every string
  that has no surrogate outside a pair and does not begin with U+FEFF (the empty string,
  strings with characters of several bytes and long strings included), decrypting the
  result of \<open>encryptText\<close> with the same key returns exactly the string.
\<close>

theorem encryptText_decryptText:
  assumes "length (raw_key k) = 32" and "length rnd = 12"
    and "is_well_formed s" and "s = [] \<or> hd s \<noteq> 0xFEFF" and "length s \<le> 2 ^ 30"
  shows "encrypt_then_decrypt rnd s k k = Inr s"
  using assms(2-5) by (rule encryptText_decryptText_helper)

theorem encryptText_decryptText_witness:
  "length (raw_key example_key) = 32 \<and> length example_nonce = 12 \<and>
   is_well_formed hello_earth \<and> hd hello_earth \<noteq> 0xFEFF \<and> length hello_earth \<le> 2 ^ 30 \<and>
   encrypt_then_decrypt example_nonce hello_earth example_key example_key = Inr hello_earth \<and>
   encrypt_then_decrypt example_nonce [] example_key example_key = Inr []"
proof -
  have k: "length (raw_key example_key) = 32"
    by (simp add: example_key_def example_raw_key_def)
  have n: "length example_nonce = 12"
    by (simp add: example_nonce_def)
  have w: "is_well_formed hello_earth"
    by (simp add: hello_earth_def js_def is_high_surrogate_def is_low_surrogate_def)
  have h: "hd hello_earth \<noteq> 0xFEFF" and l: "length hello_earth \<le> 2 ^ 30"
    by (simp_all add: hello_earth_def js_def)
  from h have h': "hello_earth = [] \<or> hd hello_earth \<noteq> 0xFEFF" by simp
  note a = encryptText_decryptText [OF k n w h' l]
  have b: "encrypt_then_decrypt example_nonce [] example_key example_key = Inr []"
    by (rule encryptText_decryptText [OF k n]) simp_all
  from k n w h l a b show ?thesis by simp
qed

section \<open>Rejection\<close>

















end
